theory Spec2Isabelle
  imports Complex_Main
begin

text \<open>
  The RegNet backbones of KerasCV (\<^verbatim>\<open>keras_cv/models/backbones/regnet/regnet_backbone.py\<close>):
  the functions that build the network graph, from the primitive convolution unit up to
  the assembler \<^verbatim>\<open>RegNetBackBone.__init__\<close>, its configuration, and its preset accessors.
  Every function keeps its name and the order of its statements; keyword arguments left to
  their defaults in the source are written out at the call.
\<close>

section \<open>Python values and the naming counter\<close>

text \<open>
  The exceptions the builder can raise by its own code: the two explicit \<^verbatim>\<open>raise\<close>
  statements, the floor division \<^verbatim>\<open>filters_out // group_width\<close>, the float division
  \<^verbatim>\<open>filters_out / bottleneck_ratio\<close> and the conversion \<^verbatim>\<open>int\<close> of its quotient (which
  raises \<^verbatim>\<open>OverflowError\<close> on an infinite quotient and \<^verbatim>\<open>ValueError\<close> on an undefined
  one), and the subscripts \<^verbatim>\<open>depths[stage_index]\<close>, \<^verbatim>\<open>widths[stage_index]\<close>.
\<close>

datatype error =
  ValueError | NotImplementedError | ZeroDivisionError | IndexError | OverflowError

text \<open>
  \<^verbatim>\<open>backend.get_uid(prefix)\<close> is the framework's global per-prefix counter: it increments
  the counter of the prefix and returns the new value. The counters are the only ambient
  state of graph construction, so every builder takes them and returns them.
\<close>

type_synonym uids = "string \<Rightarrow> nat"

definition get_uid :: "string \<Rightarrow> uids \<Rightarrow> nat \<times> uids" where
  "get_uid prefix s = (s prefix + 1, s(prefix := s prefix + 1))"

text \<open>Python's \<^verbatim>\<open>str\<close> on an integer: decimal digits, a minus sign when negative.\<close>

fun str_nat :: "nat \<Rightarrow> string" where
  "str_nat n =
     (if n < 10 then [''0123456789'' ! n]
      else str_nat (n div 10) @ [''0123456789'' ! (n mod 10)])"

declare str_nat.simps [simp del]

definition str :: "int \<Rightarrow> string" where
  "str i = (if i < 0 then CHR ''-'' # str_nat (nat (- i)) else str_nat (nat i))"

text \<open>
  Python's \<^verbatim>\<open>int(q)\<close> on a float truncates toward zero. Floats are modelled by the
  rationals they denote; the quotient \<^verbatim>\<open>filters_out / 0.25\<close> of the default ratio is exact
  in binary floating point.
\<close>

definition py_int :: "rat \<Rightarrow> int" where
  "py_int q = (if 0 \<le> q then \<lfloor>q\<rfloor> else \<lceil>q\<rceil>)"

section \<open>The network graph\<close>

text \<open>
  A layer of the framework with the arguments the builder passes, in the order it passes
  them: \<^verbatim>\<open>Conv2D(filters, kernel_size, strides, groups, use_bias, padding,
  kernel_initializer, name)\<close>, \<^verbatim>\<open>BatchNormalization(momentum, epsilon, name)\<close>,
  \<^verbatim>\<open>Activation(activation, name)\<close>, \<^verbatim>\<open>Rescaling(scale)\<close> and
  \<^verbatim>\<open>SqueezeAndExcite2D(filters, ratio, name)\<close>. Strides are integers, floats are the
  rationals they denote. Building a layer is building the node; what the framework
  accepts is said by the separate predicates \<open>well_shaped\<close> and \<open>accepted\<close> below.
\<close>

datatype layer =
    Conv2D int "int \<times> int" int int bool string string string
  | BatchNormalization rat rat string
  | Activation string string
  | Rescaling rat
  | SqueezeAndExcite2D int rat string

text \<open>
  A symbolic tensor is the expression that produces it: the model input of a given shape
  (height, width, channels; \<open>None\<close> an unknown dimension), a layer called on a tensor, or
  the sum \<^verbatim>\<open>x + y\<close> of two tensors. A tensor used twice (the input of a block feeds its
  main path and its skip path) occurs twice in the expression.
\<close>

datatype tensor =
    Input "int option list"
  | Layer layer tensor
  | Add tensor tensor

section \<open>The primitive unit and the stem\<close>

definition apply_conv2d_bn ::
  "tensor \<Rightarrow> int \<Rightarrow> int \<times> int \<Rightarrow> int \<Rightarrow> bool \<Rightarrow> int \<Rightarrow> string \<Rightarrow> string \<Rightarrow> bool \<Rightarrow>
   string option \<Rightarrow> string \<Rightarrow> tensor" where
  "apply_conv2d_bn x filters kernel_size strides use_bias groups padding kernel_initializer
     batch_norm activation name =
     (let x = Layer (Conv2D filters kernel_size strides groups use_bias padding
                       kernel_initializer name) x;
          x = (if batch_norm
               then Layer (BatchNormalization (9 / 10) (1 / 100000) (name @ ''_bn'')) x
               else x);
          x = (case activation of
                 None \<Rightarrow> x
               | Some a \<Rightarrow> Layer (Activation a (name @ ''_'' @ a)) x)
      in x)"

definition apply_stem :: "tensor \<Rightarrow> string option \<Rightarrow> uids \<Rightarrow> tensor \<times> uids" where
  "apply_stem x name s =
     (case (case name of
              None \<Rightarrow> (case get_uid ''stem'' s of (k, s') \<Rightarrow> (''stem'' @ str (int k), s'))
            | Some n \<Rightarrow> (n, s)) of
        (name, s) \<Rightarrow>
          (apply_conv2d_bn x 32 (3, 3) 2 False 1 ''same'' ''he_normal'' True (Some ''relu'')
             (name @ ''_stem_conv''), s))"

section \<open>The X, Y and Z blocks\<close>

text \<open>
  \<^verbatim>\<open>if name is None: name = str(backend.get_uid(prefix))\<close>, the first statement of every
  block and of the stage builder.
\<close>

definition default_name :: "string \<Rightarrow> string option \<Rightarrow> uids \<Rightarrow> string \<times> uids" where
  "default_name prefix name s =
     (case name of
        None \<Rightarrow> (case get_uid prefix s of (k, s') \<Rightarrow> (str (int k), s'))
      | Some n \<Rightarrow> (n, s))"

text \<open>
  \<open>filters_in\<close> is \<open>None\<close> when the caller read it from a tensor whose static channel
  dimension is unknown; Python compares \<^verbatim>\<open>None != filters_out\<close> as true.
\<close>

definition apply_x_block ::
  "tensor \<Rightarrow> int option \<Rightarrow> int \<Rightarrow> int \<Rightarrow> int \<Rightarrow> string option \<Rightarrow> uids \<Rightarrow>
   (error + tensor) \<times> uids" where
  "apply_x_block inputs filters_in filters_out group_width stride name s =
     (case default_name ''xblock'' name s of
        (name, s) \<Rightarrow>
          (if filters_in \<noteq> Some filters_out \<and> stride = 1 then Inl ValueError
           else if group_width = 0 then Inl ZeroDivisionError
           else
             let groups = filters_out div group_width;
                 skip = (if stride \<noteq> 1
                         then apply_conv2d_bn inputs filters_out (1, 1) stride False 1 ''valid''
                                ''he_normal'' True None (name @ ''_skip_1x1'')
                         else inputs);
                 x = apply_conv2d_bn inputs filters_out (1, 1) 1 False 1 ''valid''
                       ''he_normal'' True (Some ''relu'') (name @ ''_conv_1x1_1'');
                 x = apply_conv2d_bn x filters_out (3, 3) stride False groups ''same''
                       ''he_normal'' True (Some ''relu'') (name @ ''_conv_3x3'');
                 x = apply_conv2d_bn x filters_out (1, 1) 1 False 1 ''valid''
                       ''he_normal'' True None (name @ ''_conv_1x1_2'');
                 x = Layer (Activation ''relu'' (name @ ''_exit_relu'')) (Add x skip)
             in Inr x,
           s))"

definition apply_y_block ::
  "tensor \<Rightarrow> int option \<Rightarrow> int \<Rightarrow> int \<Rightarrow> int \<Rightarrow> rat \<Rightarrow> string option \<Rightarrow> uids \<Rightarrow>
   (error + tensor) \<times> uids" where
  "apply_y_block inputs filters_in filters_out group_width stride squeeze_excite_ratio name s =
     (case default_name ''yblock'' name s of
        (name, s) \<Rightarrow>
          (if filters_in \<noteq> Some filters_out \<and> stride = 1 then Inl ValueError
           else if group_width = 0 then Inl ZeroDivisionError
           else
             let groups = filters_out div group_width;
                 skip = (if stride \<noteq> 1
                         then apply_conv2d_bn inputs filters_out (1, 1) stride False 1 ''valid''
                                ''he_normal'' True None (name @ ''_skip_1x1'')
                         else inputs);
                 x = apply_conv2d_bn inputs filters_out (1, 1) 1 False 1 ''valid''
                       ''he_normal'' True (Some ''relu'') (name @ ''_conv_1x1_1'');
                 x = apply_conv2d_bn x filters_out (3, 3) stride False groups ''same''
                       ''he_normal'' True (Some ''relu'') (name @ ''_conv_3x3'');
                 x = Layer (SqueezeAndExcite2D filters_out squeeze_excite_ratio name) x;
                 x = apply_conv2d_bn x filters_out (1, 1) 1 False 1 ''valid''
                       ''he_normal'' True None (name @ ''_conv_1x1_2'');
                 x = Layer (Activation ''relu'' (name @ ''_exit_relu'')) (Add x skip)
             in Inr x,
           s))"

definition apply_z_block ::
  "tensor \<Rightarrow> int option \<Rightarrow> int \<Rightarrow> int \<Rightarrow> int \<Rightarrow> rat \<Rightarrow> rat \<Rightarrow> string option \<Rightarrow> uids \<Rightarrow>
   (error + tensor) \<times> uids" where
  "apply_z_block inputs filters_in filters_out group_width stride squeeze_excite_ratio
     bottleneck_ratio name s =
     (case default_name ''zblock'' name s of
        (name, s) \<Rightarrow>
          (if filters_in \<noteq> Some filters_out \<and> stride = 1 then Inl ValueError
           else if group_width = 0 then Inl ZeroDivisionError
           else if bottleneck_ratio = 0 then Inl ZeroDivisionError
           else
             let groups = filters_out div group_width;
                 inv_btlneck_filters = py_int (of_int filters_out / bottleneck_ratio);
                 x = apply_conv2d_bn inputs inv_btlneck_filters (1, 1) 1 False 1 ''valid''
                       ''he_normal'' True (Some ''silu'') (name @ ''_conv_1x1_1'');
                 x = apply_conv2d_bn x inv_btlneck_filters (3, 3) stride False groups ''same''
                       ''he_normal'' True (Some ''silu'') (name @ ''_conv_3x3'');
                 x = Layer (SqueezeAndExcite2D inv_btlneck_filters squeeze_excite_ratio name) x;
                 x = apply_conv2d_bn x filters_out (1, 1) 1 False 1 ''valid''
                       ''he_normal'' True None (name @ ''_conv_1x1_2'')
             in if stride \<noteq> 1 then Inr x else Inr (Add x inputs),
           s))"

text \<open>
  In \<open>apply_z_block\<close> the quotient \<^verbatim>\<open>filters_out / bottleneck_ratio\<close> is the exact one,
  which is what Python computes when the exact quotient is itself a float, as it is for
  the ratio 0.25 of the stage builder (the quotient is four times the width, a float for
  every width below \<open>2\<^sup>5\<^sup>1\<close>). In general Python rounds the quotient to the
  nearest float before \<^verbatim>\<open>int\<close> truncates it (\<^verbatim>\<open>int(3 / 0.1)\<close> is 30, the truncated exact
  quotient 29), and \<^verbatim>\<open>int\<close> raises on a quotient that is infinite or undefined.
  \<open>apply_z_block_with\<close> is the same block with the whole expression
  \<^verbatim>\<open>int(filters_out / bottleneck_ratio)\<close> taken as the parameter \<open>int_quotient\<close>, a function
  of the two operands that returns the integer or the error; the ratio is then a value
  of any type \<open>'f\<close> standing for the floats. \<open>exact_quotient\<close> is the parameter that makes
  it \<open>apply_z_block\<close>.
\<close>

definition exact_quotient :: "int \<Rightarrow> rat \<Rightarrow> error + int" where
  "exact_quotient filters_out bottleneck_ratio =
     (if bottleneck_ratio = 0 then Inl ZeroDivisionError
      else Inr (py_int (of_int filters_out / bottleneck_ratio)))"

definition apply_z_block_with ::
  "(int \<Rightarrow> 'f \<Rightarrow> error + int) \<Rightarrow> tensor \<Rightarrow> int option \<Rightarrow> int \<Rightarrow> int \<Rightarrow> int \<Rightarrow> rat \<Rightarrow> 'f \<Rightarrow>
   string option \<Rightarrow> uids \<Rightarrow> (error + tensor) \<times> uids" where
  "apply_z_block_with int_quotient inputs filters_in filters_out group_width stride
     squeeze_excite_ratio bottleneck_ratio name s =
     (case default_name ''zblock'' name s of
        (name, s) \<Rightarrow>
          (if filters_in \<noteq> Some filters_out \<and> stride = 1 then Inl ValueError
           else if group_width = 0 then Inl ZeroDivisionError
           else
             case int_quotient filters_out bottleneck_ratio of
               Inl e \<Rightarrow> Inl e
             | Inr inv_btlneck_filters \<Rightarrow>
                 let groups = filters_out div group_width;
                     x = apply_conv2d_bn inputs inv_btlneck_filters (1, 1) 1 False 1 ''valid''
                           ''he_normal'' True (Some ''silu'') (name @ ''_conv_1x1_1'');
                     x = apply_conv2d_bn x inv_btlneck_filters (3, 3) stride False groups
                           ''same'' ''he_normal'' True (Some ''silu'') (name @ ''_conv_3x3'');
                     x = Layer (SqueezeAndExcite2D inv_btlneck_filters squeeze_excite_ratio
                                  name) x;
                     x = apply_conv2d_bn x filters_out (1, 1) 1 False 1 ''valid''
                           ''he_normal'' True None (name @ ''_conv_1x1_2'')
                 in if stride \<noteq> 1 then Inr x else Inr (Add x inputs),
           s))"

section \<open>Static shapes\<close>

text \<open>
  Modelled from the spec: the shape rules of the external tensor library (section 6,
  collaborator contracts), which the repository does not contain. A static shape is the
  batch dimension followed by height, width and channels. A convolution sets the channel
  count to its filter count and divides each known spatial dimension by the stride,
  rounding up, after removing \<open>kernel - 1\<close> positions under "valid" padding; every other
  layer keeps the shape of its input.
\<close>

definition conv_output_length :: "int option \<Rightarrow> int \<Rightarrow> string \<Rightarrow> int \<Rightarrow> int option" where
  "conv_output_length input_length filter_size padding stride =
     (case input_length of
        None \<Rightarrow> None
      | Some n \<Rightarrow>
          Some (((if padding = ''same'' then n else n - filter_size + 1) + stride - 1)
                  div stride))"

fun layer_shape :: "layer \<Rightarrow> int option list \<Rightarrow> int option list" where
  "layer_shape (Conv2D filters kernel_size strides groups use_bias padding ki name) sh =
     (case sh of
        [b, h, w, c] \<Rightarrow>
          [b, conv_output_length h (fst kernel_size) padding strides,
           conv_output_length w (snd kernel_size) padding strides, Some filters]
      | _ \<Rightarrow> sh)"
| "layer_shape _ sh = sh"

fun shape :: "tensor \<Rightarrow> int option list" where
  "shape (Input s) = None # s"
| "shape (Layer l x) = layer_shape l (shape x)"
| "shape (Add x y) = shape x"

text \<open>
  Modelled from the spec: the conditions under which the external tensor library accepts
  a graph (sections 3 and 7: a grouped convolution fails on indivisible channel counts, a
  residual add needs matching shapes). A convolution needs a rank-4 input with a known
  channel count, a positive group count dividing both the input channels and the filters;
  the squeeze-and-excite gate needs as many input channels as it was sized for; a sum
  needs operands of one shape.
\<close>

fun layer_accepts :: "layer \<Rightarrow> int option list \<Rightarrow> bool" where
  "layer_accepts (Conv2D filters kernel_size strides groups use_bias padding ki name) sh =
     (case sh of
        [b, h, w, Some c] \<Rightarrow>
          0 < filters \<and> 0 < groups \<and> c mod groups = 0 \<and> filters mod groups = 0
      | _ \<Rightarrow> False)"
| "layer_accepts (SqueezeAndExcite2D filters ratio name) sh =
     (case sh of [b, h, w, Some c] \<Rightarrow> c = filters | _ \<Rightarrow> False)"
| "layer_accepts _ sh = True"

fun well_shaped :: "tensor \<Rightarrow> bool" where
  "well_shaped (Input s) = True"
| "well_shaped (Layer l x) = (well_shaped x \<and> layer_accepts l (shape x))"
| "well_shaped (Add x y) = (well_shaped x \<and> well_shaped y \<and> shape x = shape y)"

text \<open>
  Modelled from the spec: the checks of the external tensor library (section 4.1, "whatever
  the underlying tensor library raises"; section 7, failures "surfaced unchanged from the
  underlying tensor library") that do not depend on shapes, and those of the
  squeeze-and-excitation component (section 6, "taking a channel count and a reduction
  ratio"). The library uses the name of a layer as a scope name: \<open>valid_name\<close> holds of the
  names it is sure to take, which begin with a letter or a digit and go on with letters,
  digits, underscores, dots and hyphens. A convolution needs positive strides and kernel
  sizes and one of the two padding modes; an activation layer one of the two activations
  the builder asks for; the gate a ratio strictly between 0 and 1 that leaves it at least
  one channel. A dimension is in order when it is unknown or positive.
\<close>

definition name_char :: "char \<Rightarrow> bool" where
  "name_char c =
     (c \<in> set ''ABCDEFGHIJKLMNOPQRSTUVWXYZabcdefghijklmnopqrstuvwxyz0123456789_.-'')"

definition valid_name :: "string \<Rightarrow> bool" where
  "valid_name n =
     (case n of
        [] \<Rightarrow> False
      | c # cs \<Rightarrow> name_char c \<and> c \<notin> set ''_.-'' \<and> list_all name_char cs)"

fun layer_ok :: "layer \<Rightarrow> bool" where
  "layer_ok (Conv2D filters kernel_size strides groups use_bias padding ki name) =
     (0 < strides \<and> 0 < fst kernel_size \<and> 0 < snd kernel_size \<and>
      (padding = ''valid'' \<or> padding = ''same'') \<and> valid_name name)"
| "layer_ok (BatchNormalization momentum epsilon name) = valid_name name"
| "layer_ok (Activation activation name) =
     ((activation = ''relu'' \<or> activation = ''silu'') \<and> valid_name name)"
| "layer_ok (Rescaling scale) = True"
| "layer_ok (SqueezeAndExcite2D filters ratio name) =
     (0 < ratio \<and> ratio < 1 \<and> 1 \<le> of_int filters * ratio \<and> valid_name name)"

definition dim_ok :: "int option \<Rightarrow> bool" where
  "dim_ok d = (case d of None \<Rightarrow> True | Some n \<Rightarrow> 0 < n)"

text \<open>
  Modelled from the spec: a graph the external tensor library accepts in full. Every
  layer passes the checks above and those of \<open>well_shaped\<close> on the shape it is called on,
  every dimension that is known is positive, and a sum has operands of one shape.
\<close>

fun accepted :: "tensor \<Rightarrow> bool" where
  "accepted (Input s) = list_all dim_ok s"
| "accepted (Layer l x) =
     (accepted x \<and> layer_ok l \<and> layer_accepts l (shape x) \<and>
      list_all dim_ok (layer_shape l (shape x)))"
| "accepted (Add x y) = (accepted x \<and> accepted y \<and> shape x = shape y)"

text \<open>
  The name argument of a block: a name of the caller's, or none, and then the block takes
  the next number of its counter.
\<close>

definition name_ok :: "string option \<Rightarrow> bool" where
  "name_ok name = (case name of None \<Rightarrow> True | Some n \<Rightarrow> valid_name n)"

section \<open>The stage builder\<close>

text \<open>A \<^verbatim>\<open>for i in ...: x = body(i, x)\<close> loop; an exception in the body ends it.\<close>

fun for_loop ::
  "int list \<Rightarrow> (int \<Rightarrow> tensor \<Rightarrow> uids \<Rightarrow> (error + tensor) \<times> uids) \<Rightarrow> tensor \<Rightarrow> uids \<Rightarrow>
   (error + tensor) \<times> uids" where
  "for_loop [] body x s = (Inr x, s)"
| "for_loop (i # is) body x s =
     (case body i x s of
        (Inl e, s') \<Rightarrow> (Inl e, s')
      | (Inr x', s') \<Rightarrow> for_loop is body x' s')"

text \<open>
  \<^verbatim>\<open>range(1, depth)\<close> is the list \<open>[1..depth - 1]\<close>, empty when \<open>depth \<le> 1\<close>. The blocks
  of the loop are called with the default stride 1 and the default ratios 0.25.
\<close>

definition apply_stage ::
  "tensor \<Rightarrow> string \<Rightarrow> int \<Rightarrow> int \<Rightarrow> int option \<Rightarrow> int \<Rightarrow> string option \<Rightarrow> uids \<Rightarrow>
   (error + tensor) \<times> uids" where
  "apply_stage x block_type depth group_width filters_in filters_out name s =
     (case default_name ''stage'' name s of
        (name, s) \<Rightarrow>
          if block_type = ''X'' then
            (case apply_x_block x filters_in filters_out group_width 2
                    (Some (name @ ''_XBlock_0'')) s of
               (Inl e, s) \<Rightarrow> (Inl e, s)
             | (Inr x, s) \<Rightarrow>
                 for_loop [1..depth - 1]
                   (\<lambda>i x. apply_x_block x (Some filters_out) filters_out group_width 1
                            (Some (name @ ''_XBlock_'' @ str i))) x s)
          else if block_type = ''Y'' then
            (case apply_y_block x filters_in filters_out group_width 2 (1 / 4)
                    (Some (name @ ''_YBlock_0'')) s of
               (Inl e, s) \<Rightarrow> (Inl e, s)
             | (Inr x, s) \<Rightarrow>
                 for_loop [1..depth - 1]
                   (\<lambda>i x. apply_y_block x (Some filters_out) filters_out group_width 1 (1 / 4)
                            (Some (name @ ''_YBlock_'' @ str i))) x s)
          else if block_type = ''Z'' then
            (case apply_z_block x filters_in filters_out group_width 2 (1 / 4) (1 / 4)
                    (Some (name @ ''_ZBlock_0'')) s of
               (Inl e, s) \<Rightarrow> (Inl e, s)
             | (Inr x, s) \<Rightarrow>
                 for_loop [1..depth - 1]
                   (\<lambda>i x. apply_z_block x (Some filters_out) filters_out group_width 1 (1 / 4)
                            (1 / 4) (Some (name @ ''_ZBlock_'' @ str i))) x s)
          else (Inl NotImplementedError, s))"

section \<open>The backbone assembler\<close>

text \<open>
  Modelled from the spec: \<^verbatim>\<open>utils.parse_model_inputs\<close>, a helper of the repository that
  is not among its files here. Section 6 gives the backbone "an optional externally
  supplied symbolic input tensor, an input shape": the supplied tensor is the model input
  when there is one, and a new input of the given shape otherwise.
\<close>

definition parse_model_inputs :: "int option list \<Rightarrow> tensor option \<Rightarrow> tensor" where
  "parse_model_inputs input_shape input_tensor =
     (case input_tensor of None \<Rightarrow> Input input_shape | Some t \<Rightarrow> t)"

text \<open>
  The subscript \<^verbatim>\<open>xs[i]\<close> of a Python sequence. An index from \<open>0\<close> up to the length
  reads from the front, one from \<open>-len(xs)\<close> up to \<open>-1\<close> reads from the back, and any
  other index raises \<^verbatim>\<open>IndexError\<close>.
\<close>

definition getitem :: "'a list \<Rightarrow> int \<Rightarrow> error + 'a" where
  "getitem xs i =
     (if 0 \<le> i \<and> i < int (length xs) then Inr (xs ! nat i)
      else if i < 0 \<and> - int (length xs) \<le> i then Inr (xs ! nat (int (length xs) + i))
      else Inl IndexError)"

text \<open>
  The constructed model: the graph handed to the base class (\<open>model_inputs\<close>,
  \<open>model_outputs\<close>, \<open>keras_name\<close>) and the attributes \<^verbatim>\<open>__init__\<close> stores on \<^verbatim>\<open>self\<close>.
\<close>

record backbone =
  model_inputs :: tensor
  model_outputs :: tensor
  keras_name :: string
  depths :: "int list"
  widths :: "int list"
  group_width :: int
  block_type :: string
  include_rescaling :: bool
  model_name :: string
  input_tensor :: "tensor option"

text \<open>
  The body of \<^verbatim>\<open>for stage_index in range(NUM_STAGES)\<close>, with \<open>in_channels\<close> threaded from
  one stage to the next.
\<close>

fun stage_loop ::
  "int list \<Rightarrow> int list \<Rightarrow> int list \<Rightarrow> int \<Rightarrow> string \<Rightarrow> string \<Rightarrow> tensor \<Rightarrow> int option \<Rightarrow> uids \<Rightarrow>
   (error + tensor) \<times> uids" where
  "stage_loop [] ds ws gw bt mname x in_channels s = (Inr x, s)"
| "stage_loop (stage_index # rest) ds ws gw bt mname x in_channels s =
     (case getitem ds stage_index of
        Inl e \<Rightarrow> (Inl e, s)
      | Inr depth \<Rightarrow>
          (case getitem ws stage_index of
             Inl e \<Rightarrow> (Inl e, s)
           | Inr out_channels \<Rightarrow>
               (case apply_stage x bt depth gw in_channels out_channels
                       (Some (mname @ ''_Stage_'' @ str stage_index)) s of
                  (Inl e, s') \<Rightarrow> (Inl e, s')
                | (Inr x', s') \<Rightarrow>
                    stage_loop rest ds ws gw bt mname x' (Some out_channels) s')))"

definition NUM_STAGES :: int where
  "NUM_STAGES = 4"

definition RegNetBackBone_init ::
  "int list \<Rightarrow> int list \<Rightarrow> int \<Rightarrow> string \<Rightarrow> bool \<Rightarrow> string \<Rightarrow> tensor option \<Rightarrow> int option list \<Rightarrow>
   uids \<Rightarrow> (error + backbone) \<times> uids" where
  "RegNetBackBone_init ds ws gw bt rescaling mname in_tensor input_shape s =
     (let img_input = parse_model_inputs input_shape in_tensor;
          x = img_input;
          x = (if rescaling then Layer (Rescaling (1 / 255)) x else x)
      in case apply_stem x (Some mname) s of
           (x, s) \<Rightarrow>
             (let in_channels = last (shape x)
              in case stage_loop [0..NUM_STAGES - 1] ds ws gw bt mname x in_channels s of
                   (Inl e, s) \<Rightarrow> (Inl e, s)
                 | (Inr x, s) \<Rightarrow>
                     (Inr \<lparr>model_inputs = img_input, model_outputs = x, keras_name = mname,
                           depths = ds, widths = ws, group_width = gw, block_type = bt,
                           include_rescaling = rescaling, model_name = mname,
                           input_tensor = in_tensor\<rparr>, s)))"

section \<open>The naming registry of the framework\<close>

text \<open>
  Modelled from the spec: the naming registry of the external library (section 5,
  construction is free of side effects "beyond registering named layers in a naming
  registry to avoid collisions"; section 9, the "global layer-naming-counter state (used
  when no explicit name prefix is supplied)"). A layer built without a name takes one
  from the registry, which keeps the per-prefix counters that \<^verbatim>\<open>backend.get_uid\<close> reads.
  An input layer is named \<^verbatim>\<open>input_k\<close> with \<open>k\<close> the incremented counter of "input". Any
  other layer takes its prefix alone when the counter of the prefix is 0 and the prefix
  followed by the counter otherwise, and increments the counter. The sum \<^verbatim>\<open>x + y\<close> of two
  symbolic tensors is a layer of the prefix "tf.__operators__.add". When it names a sum
  the registry also steps over a name that some layer has been given explicitly; no name
  the builder passes is of that form, and the model takes it that no layer built earlier
  in the process was given one, so that the counters are the whole state of the registry.
\<close>

definition input_layer_name :: "uids \<Rightarrow> string \<times> uids" where
  "input_layer_name s =
     (case get_uid ''input'' s of (k, s') \<Rightarrow> (''input_'' @ str (int k), s'))"

definition unique_object_name :: "string \<Rightarrow> uids \<Rightarrow> string \<times> uids" where
  "unique_object_name name s =
     (if s name = 0 then name else name @ ''_'' @ str (int (s name)),
      s(name := s name + 1))"

fun name_sums :: "nat \<Rightarrow> uids \<Rightarrow> string list \<times> uids" where
  "name_sums 0 s = ([], s)"
| "name_sums (Suc k) s =
     (case unique_object_name ''tf.__operators__.add'' s of
        (n, s') \<Rightarrow> (case name_sums k s' of (ns, s'') \<Rightarrow> (n # ns, s'')))"

text \<open>
  The sums the assembler has built: those on the main path of the output above the model
  input (the skip path of a block holds no sum of its own).
\<close>

fun sums_above :: "tensor \<Rightarrow> tensor \<Rightarrow> nat" where
  "sums_above a (Input sh) = 0"
| "sums_above a (Layer l x) = (if Layer l x = a then 0 else sums_above a x)"
| "sums_above a (Add x y) = (if Add x y = a then 0 else Suc (sums_above a x))"

text \<open>
  Modelled from the spec: the names the registry gives during one construction, in the
  order the units are built. \<^verbatim>\<open>RegNetBackBone.__init__\<close> builds three kinds of units
  without a name: the model input, when no input tensor is supplied
  (\<^verbatim>\<open>parse_model_inputs\<close>); the rescaling layer, when the flag is set; and the sum of every
  block that adds its input or its skip path. Every other layer has the name the builder
  passes, which is part of the graph.
\<close>

definition framework_names :: "backbone \<Rightarrow> uids \<Rightarrow> string list \<times> uids" where
  "framework_names m s =
     (case (if input_tensor m = None
            then (case input_layer_name s of (n, s') \<Rightarrow> ([n], s'))
            else ([], s)) of
        (inp, s) \<Rightarrow>
          (case (if include_rescaling m
                 then (case unique_object_name ''rescaling'' s of (n, s') \<Rightarrow> ([n], s'))
                 else ([], s)) of
             (resc, s) \<Rightarrow>
               (case name_sums (sums_above (model_inputs m) (model_outputs m)) s of
                  (adds, s) \<Rightarrow> (inp @ resc @ adds, s))))"

text \<open>
  A construction as a caller of the class sees it: the backbone \<^verbatim>\<open>__init__\<close> builds,
  together with the names the registry has given to its unnamed units, and the counters
  as the construction leaves them. Of a construction that raises only the error is kept.
\<close>

definition construct_backbone ::
  "int list \<Rightarrow> int list \<Rightarrow> int \<Rightarrow> string \<Rightarrow> bool \<Rightarrow> string \<Rightarrow> tensor option \<Rightarrow> int option list \<Rightarrow>
   uids \<Rightarrow> (error + backbone \<times> string list) \<times> uids" where
  "construct_backbone ds ws gw bt rescaling mname in_tensor input_shape s =
     (case RegNetBackBone_init ds ws gw bt rescaling mname in_tensor input_shape s of
        (Inl e, s) \<Rightarrow> (Inl e, s)
      | (Inr m, s) \<Rightarrow> (case framework_names m s of (names, s) \<Rightarrow> (Inr (m, names), s)))"

section \<open>The configuration method\<close>

text \<open>
  \<^verbatim>\<open>get_config\<close> builds the dictionary and ends without a \<^verbatim>\<open>return\<close> statement, so the
  call evaluates to Python's \<^verbatim>\<open>None\<close>. The configuration of the base class, which is not
  among the files here, is the parameter \<open>super_get_config\<close>; \<^verbatim>\<open>self.input_shape\<close> is the
  static shape of the model input.
\<close>

datatype config_value =
    CInts "int list"
  | CInt int
  | CStr string
  | CBool bool
  | CTensor "tensor option"
  | CShape "int option list"

type_synonym config = "(string \<times> config_value) list"

text \<open>\<^verbatim>\<open>dict.update\<close>: the new entries replace those of the same key.\<close>

definition update :: "config \<Rightarrow> config \<Rightarrow> config" where
  "update config new =
     filter (\<lambda>kv. fst kv \<notin> set (map fst new)) config @ new"

definition config_entries :: "backbone \<Rightarrow> config" where
  "config_entries self =
     [(''depths'', CInts (depths self)),
      (''widths'', CInts (widths self)),
      (''group_width'', CInt (group_width self)),
      (''block_type'', CStr (block_type self)),
      (''include_rescaling'', CBool (include_rescaling self)),
      (''model_name'', CStr (model_name self)),
      (''input_tensor'', CTensor (input_tensor self)),
      (''input_shape'', CShape (tl (shape (model_inputs self))))]"

definition get_config :: "(backbone \<Rightarrow> config) \<Rightarrow> backbone \<Rightarrow> config option" where
  "get_config super_get_config self =
     (let config = super_get_config self;
          config = update config (config_entries self)
      in None)"

section \<open>Observations on a graph\<close>

text \<open>
  The layers on the main path of a tensor, in the order they are applied: the path
  follows the input of each layer and the left operand of each sum (the main path of a
  block; the right operand is its skip).
\<close>

fun chain :: "tensor \<Rightarrow> layer list" where
  "chain (Input s) = []"
| "chain (Layer l x) = chain x @ [l]"
| "chain (Add x y) = chain x"

section \<open>Auxiliary notions for the proofs\<close>

text \<open>Counters of a process in which no name has been drawn yet.\<close>

definition fresh_uids :: uids where
  "fresh_uids = (\<lambda>_. 0)"

text \<open>
  The three branches of the stage builder have one shape: a first block, then a loop of
  further blocks. \<open>stage_block\<close> is the block a branch calls with the name it gives it,
  \<open>run_blocks\<close> the first block followed by the loop.
\<close>

definition run_blocks ::
  "(uids \<Rightarrow> (error + tensor) \<times> uids) \<Rightarrow> int list \<Rightarrow>
   (int \<Rightarrow> tensor \<Rightarrow> uids \<Rightarrow> (error + tensor) \<times> uids) \<Rightarrow> uids \<Rightarrow> (error + tensor) \<times> uids" where
  "run_blocks first is body s =
     (case first s of
        (Inl e, s') \<Rightarrow> (Inl e, s')
      | (Inr x, s') \<Rightarrow> for_loop is body x s')"

definition stage_block ::
  "string \<Rightarrow> string \<Rightarrow> int option \<Rightarrow> int \<Rightarrow> int \<Rightarrow> int \<Rightarrow> int \<Rightarrow> tensor \<Rightarrow> uids \<Rightarrow>
   (error + tensor) \<times> uids" where
  "stage_block bt n fi fo gw stride =
     (if bt = ''X'' then
        (\<lambda>i x. apply_x_block x fi fo gw stride (Some (n @ ''_XBlock_'' @ str i)))
      else if bt = ''Y'' then
        (\<lambda>i x. apply_y_block x fi fo gw stride (1 / 4) (Some (n @ ''_YBlock_'' @ str i)))
      else
        (\<lambda>i x. apply_z_block x fi fo gw stride (1 / 4) (1 / 4)
                 (Some (n @ ''_ZBlock_'' @ str i))))"

text \<open>
  \<open>seq_layers ls x\<close> calls the layers \<open>ls\<close> one after the other, the first of them on
  \<open>x\<close>.
\<close>

fun seq_layers :: "layer list \<Rightarrow> tensor \<Rightarrow> tensor" where
  "seq_layers [] x = x"
| "seq_layers (l # ls) x = seq_layers ls (Layer l x)"

text \<open>
  The strides of the 3x3 convolutions on the main path, in the order they are applied:
  the stem's and one per block.
\<close>

fun conv3x3_stride :: "layer \<Rightarrow> int list" where
  "conv3x3_stride (Conv2D filters kernel_size strides groups use_bias padding ki name) =
     (if kernel_size = (3, 3) then [strides] else [])"
| "conv3x3_stride _ = []"

definition main_strides :: "tensor \<Rightarrow> int list" where
  "main_strides t = concat (map conv3x3_stride (chain t))"

text \<open>A spatial dimension after a convolution of the given stride: divided, rounded up.\<close>

definition down :: "int \<Rightarrow> int option \<Rightarrow> int option" where
  "down stride d = map_option (\<lambda>n. (n + stride - 1) div stride) d"

text \<open>
  Modelled from the spec: the entries of the two preset tables, which are not among the
  files here. Section 3 states what a hyperparameter tuple is: four positive depths, four
  positive widths, a positive group width dividing every width, and a block type among
  X, Y and Z.
\<close>

definition hyperparameters_ok :: "int list \<Rightarrow> int list \<Rightarrow> int \<Rightarrow> string \<Rightarrow> bool" where
  "hyperparameters_ok ds ws gw bt =
     (length ds = 4 \<and> length ws = 4 \<and> list_all (\<lambda>d. 0 < d) ds \<and> 0 < gw \<and>
      list_all (\<lambda>w. 0 < w \<and> w mod gw = 0) ws \<and> (bt = ''X'' \<or> bt = ''Y'' \<or> bt = ''Z''))"

text \<open>
  \<open>replace a b t\<close> is the graph \<open>t\<close> in which the tensor \<open>a\<close> is replaced by \<open>b\<close>
  wherever it is read. \<open>built_on a t\<close> holds when every path from \<open>t\<close> down to a model
  input goes through \<open>a\<close>. The nodes of a graph are its distinct sub-expressions: a
  tensor read twice is one node.
\<close>

fun replace :: "tensor \<Rightarrow> tensor \<Rightarrow> tensor \<Rightarrow> tensor" where
  "replace a b (Input sh) = (if Input sh = a then b else Input sh)"
| "replace a b (Layer l x) = (if Layer l x = a then b else Layer l (replace a b x))"
| "replace a b (Add x y) = (if Add x y = a then b else Add (replace a b x) (replace a b y))"

fun built_on :: "tensor \<Rightarrow> tensor \<Rightarrow> bool" where
  "built_on a (Input sh) = (Input sh = a)"
| "built_on a (Layer l x) = (Layer l x = a \<or> built_on a x)"
| "built_on a (Add x y) = (Add x y = a \<or> built_on a x \<and> built_on a y)"

fun nodes :: "tensor \<Rightarrow> tensor set" where
  "nodes (Input sh) = {Input sh}"
| "nodes (Layer l x) = insert (Layer l x) (nodes x)"
| "nodes (Add x y) = insert (Add x y) (nodes x \<union> nodes y)"

definition lift_result ::
  "(tensor \<Rightarrow> tensor) \<Rightarrow> (error + tensor) \<times> uids \<Rightarrow> (error + tensor) \<times> uids" where
  "lift_result f r = (case r of (Inl e, s) \<Rightarrow> (Inl e, s) | (Inr t, s) \<Rightarrow> (Inr (f t), s))"

text \<open>
  The backbone \<open>m\<close> with a rescaling layer put between its input and everything that
  reads the input, and the flag set.
\<close>

definition with_rescaling :: "backbone \<Rightarrow> backbone" where
  "with_rescaling m =
     m\<lparr>model_outputs :=
         replace (model_inputs m) (Layer (Rescaling (1 / 255)) (model_inputs m))
           (model_outputs m),
       include_rescaling := True\<rparr>"

text \<open>
  Two states of the registry that agree on the counters a construction draws names
  from.
\<close>

definition same_counters :: "uids \<Rightarrow> uids \<Rightarrow> bool" where
  "same_counters s1 s2 =
     (s1 ''input'' = s2 ''input'' \<and> s1 ''rescaling'' = s2 ''rescaling'' \<and>
      s1 ''tf.__operators__.add'' = s2 ''tf.__operators__.add'')"

text \<open>
  The sums one block of a stage builds: one, except that a Z block of a stride other than
  1 returns its projection alone.
\<close>

definition block_sums :: "string \<Rightarrow> int \<Rightarrow> nat" where
  "block_sums bt stride = (if bt = ''X'' \<or> bt = ''Y'' \<or> stride = 1 then 1 else 0)"

section \<open>The preset accessors and the Python heap\<close>

text \<open>
  The preset tables are mutable Python objects, so what an accessor returns is a
  reference into the heap. A value is an immutable atom or a reference to a container; a
  container is a list or a dictionary with string keys; the heap is the list of the
  containers allocated so far, and the address of a container is its position.
\<close>

datatype pyval = PInt int | PStr string | PBool bool | PNone | PRef nat

datatype pyobj = PList "pyval list" | PDict "(string \<times> pyval) list"

type_synonym heap = "pyobj list"

text \<open>
  \<^verbatim>\<open>copy.deepcopy\<close> of the Python standard library, as far as preset tables need it: an
  atom is returned as it is, and a container is copied into a new container whose
  elements are the copies of its elements. The fuel bounds the depth of nesting the copy
  may descend, so that a copy that does not end is the value \<open>None\<close>. The memo table by
  which the library copies a container that is referenced twice only once is left out: a
  table written as a literal holds no container twice.
\<close>

fun deepcopy :: "nat \<Rightarrow> heap \<Rightarrow> pyval \<Rightarrow> (pyval \<times> heap) option"
  and deepcopy_all :: "nat \<Rightarrow> heap \<Rightarrow> pyval list \<Rightarrow> (pyval list \<times> heap) option" where
  "deepcopy fuel h (PRef a) =
     (case fuel of
        0 \<Rightarrow> None
      | Suc n \<Rightarrow>
          if a < length h then
            (case h ! a of
               PList vs \<Rightarrow>
                 (case deepcopy_all n h vs of
                    None \<Rightarrow> None
                  | Some (vs', h') \<Rightarrow> Some (PRef (length h'), h' @ [PList vs']))
             | PDict kvs \<Rightarrow>
                 (case deepcopy_all n h (map snd kvs) of
                    None \<Rightarrow> None
                  | Some (vs', h') \<Rightarrow>
                      Some (PRef (length h'), h' @ [PDict (zip (map fst kvs) vs')])))
          else None)"
| "deepcopy fuel h v = Some (v, h)"
| "deepcopy_all fuel h [] = Some ([], h)"
| "deepcopy_all fuel h (v # vs) =
     (case deepcopy fuel h v of
        None \<Rightarrow> None
      | Some (v', h') \<Rightarrow>
          (case deepcopy_all fuel h' vs of
             None \<Rightarrow> None
           | Some (vs', h'') \<Rightarrow> Some (v' # vs', h'')))"

text \<open>
  The two accessors of \<^verbatim>\<open>RegNetBackBone\<close>. A class property is evaluated on every access,
  so each access is a call. The tables \<^verbatim>\<open>backbone_presets_x\<close> and \<^verbatim>\<open>backbone_presets_y\<close> are
  module globals defined in files that are not among those here: they are the addresses
  the accessors are given.
\<close>

definition presetsx :: "nat \<Rightarrow> nat \<Rightarrow> heap \<Rightarrow> (pyval \<times> heap) option" where
  "presetsx fuel backbone_presets_x h = deepcopy fuel h (PRef backbone_presets_x)"

definition presetsy :: "nat \<Rightarrow> nat \<Rightarrow> heap \<Rightarrow> (pyval \<times> heap) option" where
  "presetsy fuel backbone_presets_y h = deepcopy fuel h (PRef backbone_presets_y)"

text \<open>
  The nested value a heap value stands for, its nesting depth, and \<open>repr h v t\<close>: in the
  heap \<open>h\<close> the value \<open>v\<close> stands for \<open>t\<close>.
\<close>

datatype pytree =
    TInt int | TStr string | TBool bool | TNone
  | TList "pytree list"
  | TDict "(string \<times> pytree) list"

fun repr :: "heap \<Rightarrow> pyval \<Rightarrow> pytree \<Rightarrow> bool" where
  "repr h v (TInt i) = (v = PInt i)"
| "repr h v (TStr s) = (v = PStr s)"
| "repr h v (TBool b) = (v = PBool b)"
| "repr h v TNone = (v = PNone)"
| "repr h v (TList ts) =
     (case v of
        PRef a \<Rightarrow>
          a < length h \<and>
          (case h ! a of PList vs \<Rightarrow> list_all2 (\<lambda>t v. repr h v t) ts vs | PDict kvs \<Rightarrow> False)
      | _ \<Rightarrow> False)"
| "repr h v (TDict kts) =
     (case v of
        PRef a \<Rightarrow>
          a < length h \<and>
          (case h ! a of
             PList vs \<Rightarrow> False
           | PDict kvs \<Rightarrow>
               map fst kvs = map fst kts \<and>
               list_all2 (\<lambda>t v. repr h v t) (map snd kts) (map snd kvs))
      | _ \<Rightarrow> False)"

fun height :: "pytree \<Rightarrow> nat" where
  "height (TList ts) = Suc (fold max (map height ts) 0)"
| "height (TDict kts) = Suc (fold max (map (\<lambda>kt. height (snd kt)) kts) 0)"
| "height _ = 0"

text \<open>
  Code that uses the accessors. It holds the references \<open>R\<close> it was handed; the addresses
  it can get at are those reachable from them. In one step it reads one of the two
  properties, or mutates a container it can reach (the new content holds atoms and
  references it can reach), or creates a container of its own.
\<close>

fun values_of :: "pyobj \<Rightarrow> pyval list" where
  "values_of (PList vs) = vs"
| "values_of (PDict kvs) = map snd kvs"

inductive_set reach :: "heap \<Rightarrow> pyval list \<Rightarrow> nat set" for h :: heap and R :: "pyval list" where
  root: "PRef a \<in> set R \<Longrightarrow> a \<in> reach h R"
| child: "a \<in> reach h R \<Longrightarrow> a < length h \<Longrightarrow> PRef b \<in> set (values_of (h ! a)) \<Longrightarrow>
          b \<in> reach h R"

inductive client_step :: "nat \<Rightarrow> nat \<Rightarrow> heap \<times> pyval list \<Rightarrow> heap \<times> pyval list \<Rightarrow> bool"
  for gx :: nat and gy :: nat where
  get_presetsx: "presetsx fuel gx h = Some (v, h') \<Longrightarrow> client_step gx gy (h, R) (h', v # R)"
| get_presetsy: "presetsy fuel gy h = Some (v, h') \<Longrightarrow> client_step gx gy (h, R) (h', v # R)"
| mutate: "a \<in> reach h R \<Longrightarrow> a < length h \<Longrightarrow>
           \<forall>b. PRef b \<in> set (values_of ob) \<longrightarrow> b \<in> reach h R \<Longrightarrow>
           client_step gx gy (h, R) (h[a := ob], R)"
| create: "\<forall>b. PRef b \<in> set (values_of ob) \<longrightarrow> b \<in> reach h R \<Longrightarrow>
           client_step gx gy (h, R) (h @ [ob], PRef (length h) # R)"

text \<open>
  Auxiliary notions for the proofs: references and containers that stay within a range of
  addresses, a value and its copy, and the invariant of the steps of a client that
  started on the heap \<open>h0\<close>.
\<close>

fun ref_within :: "nat \<Rightarrow> nat \<Rightarrow> pyval \<Rightarrow> bool" where
  "ref_within lo hi (PRef a) = (lo \<le> a \<and> a < hi)"
| "ref_within lo hi _ = True"

definition refs_within :: "nat \<Rightarrow> nat \<Rightarrow> pyval list \<Rightarrow> bool" where
  "refs_within lo hi vs = list_all (ref_within lo hi) vs"

definition objs_within :: "nat \<Rightarrow> nat \<Rightarrow> pyobj list \<Rightarrow> bool" where
  "objs_within lo hi os = list_all (\<lambda>ob. refs_within lo hi (values_of ob)) os"

fun copied :: "nat \<Rightarrow> nat \<Rightarrow> pyval \<Rightarrow> pyval \<Rightarrow> bool" where
  "copied lo hi (PRef a) v' = (case v' of PRef a' \<Rightarrow> lo \<le> a' \<and> a' < hi | _ \<Rightarrow> False)"
| "copied lo hi v v' = (v' = v)"

definition client_inv :: "heap \<Rightarrow> heap \<Rightarrow> pyval list \<Rightarrow> bool" where
  "client_inv h0 h R =
     (take (length h0) h = h0 \<and> length h0 \<le> length h \<and>
      refs_within (length h0) (length h) R \<and>
      objs_within (length h0) (length h) (drop (length h0) h))"

text \<open>
  A heap after import, with an X table at address 2 and a Y table at address 4, and the
  heap after a client read \<^verbatim>\<open>presetsx\<close> and set \<^verbatim>\<open>depths[0] = 99\<close> in what it was given.
\<close>

definition imported_heap :: heap where
  "imported_heap =
     [PList [PInt 1, PInt 1],
      PDict [(''depths'', PRef 0)],
      PDict [(''regnetx002'', PRef 1)],
      PList [],
      PDict [(''regnety002'', PRef 3)]]"

definition mutated_heap :: heap where
  "mutated_heap =
     imported_heap @
     [PList [PInt 99, PInt 1],
      PDict [(''depths'', PRef 5)],
      PDict [(''regnetx002'', PRef 6)]]"

section \<open>Basic facts\<close>

lemma default_name_Some [simp]: "default_name p (Some n) s = (n, s)"
  by (simp add: default_name_def)

lemma str_0 [simp]: "str 0 = ''0''"
  by (simp add: str_def str_nat.simps)

lemma apply_stage_blocks:
  "apply_stage x bt depth gw fi fo name s =
     (case default_name ''stage'' name s of
        (n, s') \<Rightarrow>
          if bt = ''X'' \<or> bt = ''Y'' \<or> bt = ''Z''
          then run_blocks (stage_block bt n fi fo gw 2 0 x) [1..depth - 1]
                 (stage_block bt n (Some fo) fo gw 1) s'
          else (Inl NotImplementedError, s'))"
  by (auto simp: apply_stage_def run_blocks_def stage_block_def split: prod.splits)

section \<open>Rejection of mismatched filters\<close>

text \<open>
  C1 (as the code has it). The Z block opens with the same precondition as the X and Y
  blocks: called with \<open>filters_in \<noteq> filters_out\<close> and stride 1 it raises
  \<^verbatim>\<open>ValueError\<close>, before the group count and the bottleneck width are computed (a zero
  group width or a zero bottleneck ratio does not get to raise).
\<close>

theorem z_block_rejects_mismatch:
  "fi \<noteq> Some fo \<Longrightarrow> stride = 1 \<Longrightarrow>
   fst (apply_z_block inputs fi fo gw stride ser br name s) = Inl ValueError"
  by (simp add: apply_z_block_def split: prod.splits)

theorem z_block_rejects_mismatch_witness:
  "Some 32 \<noteq> Some (64::int) \<and>
   fst (apply_z_block (Input [None, None, Some 3]) (Some 32) 64 0 1 (1 / 4) 0 None fresh_uids)
     = Inl ValueError"
  using z_block_rejects_mismatch
    [of "Some 32" 64 1 "Input [None, None, Some 3]" 0 "1 / 4" 0 None fresh_uids]
  by simp

text \<open>
  The claim as the specification words it, that the Z block goes on to build the block
  when the filters differ at stride 1, fails: 32 input filters, 64 output filters,
  stride 1.
\<close>

theorem z_block_unchecked_counterexample:
  "fst (apply_z_block (Input [None, None, Some 3]) (Some 32) 64 8 1 (1 / 4) (1 / 4)
          (Some ''z'') fresh_uids) = Inl ValueError"
  by (simp add: apply_z_block_def)

section \<open>The unrecognised block type\<close>

lemma stage_block_errors:
  "fst (stage_block bt n fi fo gw stride i x s) \<noteq> Inl NotImplementedError"
  "fst (stage_block bt n fi fo gw stride i x s) \<noteq> Inl IndexError"
  by (simp_all add: stage_block_def apply_x_block_def apply_y_block_def apply_z_block_def Let_def)

lemma for_loop_error:
  assumes "\<And>i x s. fst (body i x s) \<noteq> Inl e"
  shows "fst (for_loop is body x s) \<noteq> Inl e"
proof (induction "is" arbitrary: x s)
  case Nil
  show ?case by simp
next
  case (Cons i "is")
  show ?case
  proof (cases "body i x s")
    case (Pair r s')
    with assms [of i x s] Cons.IH show ?thesis
      by (cases r) auto
  qed
qed

lemma run_blocks_error:
  assumes "fst (first s) \<noteq> Inl e" and "\<And>i x s. fst (body i x s) \<noteq> Inl e"
  shows "fst (run_blocks first is body s) \<noteq> Inl e"
proof (cases "first s")
  case (Pair r s')
  with assms(1) for_loop_error [of body e, OF assms(2)] show ?thesis
    by (cases r) (auto simp: run_blocks_def)
qed

text \<open>
  C4. The stage builder ends in \<^verbatim>\<open>NotImplementedError\<close> exactly for the tags other than
  "X", "Y" and "Z": such a tag raises at once (no block is built, the result is the
  error), and with one of the three tags no block and no loop of the branch taken ever
  yields that error.
\<close>

theorem apply_stage_not_implemented_iff_unknown_tag:
  "(fst (apply_stage x bt depth gw fi fo name s) = Inl NotImplementedError) =
   (bt \<noteq> ''X'' \<and> bt \<noteq> ''Y'' \<and> bt \<noteq> ''Z'')"
proof (cases "default_name ''stage'' name s")
  case (Pair n s')
  have "fst (run_blocks (stage_block bt n fi fo gw 2 0 x) [1..depth - 1]
               (stage_block bt n (Some fo) fo gw 1) s') \<noteq> Inl NotImplementedError"
    by (rule run_blocks_error) (rule stage_block_errors(1))+
  with Pair show ?thesis
    by (simp add: apply_stage_blocks)
qed

theorem apply_stage_not_implemented_iff_unknown_tag_witness:
  "fst (apply_stage (Input [None, None, Some 3]) ''W'' 3 8 (Some 32) 24 (Some ''st'')
          fresh_uids) = Inl NotImplementedError \<and>
   fst (apply_stage (Input [None, None, Some 3]) ''Y'' 3 8 (Some 32) 24 (Some ''st'')
          fresh_uids) \<noteq> Inl NotImplementedError"
  using apply_stage_not_implemented_iff_unknown_tag
      [of "Input [None, None, Some 3]" "''W''" 3 8 "Some 32" 24 "Some ''st''" fresh_uids]
    apply_stage_not_implemented_iff_unknown_tag
      [of "Input [None, None, Some 3]" "''Y''" 3 8 "Some 32" 24 "Some ''st''" fresh_uids]
  by simp

section \<open>Independence of the naming counters\<close>

lemma stage_block_state: "\<exists>r. \<forall>s. stage_block bt n fi fo gw stride i x s = (r, s)"
  by (simp add: stage_block_def apply_x_block_def apply_y_block_def apply_z_block_def Let_def)

lemma for_loop_state:
  assumes "\<And>i x. \<exists>r. \<forall>s. body i x s = (r, s)"
  shows "\<exists>r. \<forall>s. for_loop is body x s = (r, s)"
proof (induction "is" arbitrary: x)
  case Nil
  show ?case by simp
next
  case (Cons i "is")
  from assms [of i x] obtain r where r: "\<And>s. body i x s = (r, s)"
    by blast
  show ?case
  proof (cases r)
    case (Inl e)
    with r show ?thesis by simp
  next
    case (Inr x')
    with r Cons.IH [of x'] show ?thesis by simp
  qed
qed

lemma run_blocks_state:
  assumes "\<exists>r. \<forall>s. first s = (r, s)"
    and "\<And>i x. \<exists>r. \<forall>s. body i x s = (r, s)"
  shows "\<exists>r. \<forall>s. run_blocks first is body s = (r, s)"
proof -
  from assms(1) obtain r where r: "\<And>s. first s = (r, s)"
    by blast
  show ?thesis
  proof (cases r)
    case (Inl e)
    with r show ?thesis by (simp add: run_blocks_def)
  next
    case (Inr x')
    with r for_loop_state [of body "is" x', OF assms(2)] show ?thesis
      by (simp add: run_blocks_def)
  qed
qed

lemma apply_stage_state:
  "\<exists>r. \<forall>s. apply_stage x bt depth gw fi fo (Some n) s = (r, s)"
proof (cases "bt = ''X'' \<or> bt = ''Y'' \<or> bt = ''Z''")
  case True
  have "\<exists>r. \<forall>s. run_blocks (stage_block bt n fi fo gw 2 0 x) [1..depth - 1]
               (stage_block bt n (Some fo) fo gw 1) s = (r, s)"
    by (rule run_blocks_state) (rule stage_block_state)+
  with True show ?thesis
    by (simp add: apply_stage_blocks)
next
  case False
  then show ?thesis
    by (simp add: apply_stage_blocks)
qed

lemma stage_loop_state:
  "\<exists>r. \<forall>s. stage_loop idx ds ws gw bt mname x c s = (r, s)"
proof (induction idx arbitrary: x c)
  case Nil
  show ?case by simp
next
  case (Cons i idx)
  show ?case
  proof (cases "getitem ds i")
    case (Inl e)
    then show ?thesis by simp
  next
    case d: (Inr depth)
    show ?thesis
    proof (cases "getitem ws i")
      case (Inl e)
      with d show ?thesis by simp
    next
      case w: (Inr oc)
      obtain r where r: "\<And>s. apply_stage x bt depth gw c oc
                                 (Some (mname @ ''_Stage_'' @ str i)) s = (r, s)"
        using apply_stage_state by blast
      show ?thesis
      proof (cases r)
        case (Inl e)
        with d w r show ?thesis by simp
      next
        case (Inr x')
        with d w r Cons.IH [of x' "Some oc"] show ?thesis by simp
      qed
    qed
  qed
qed

lemma RegNetBackBone_init_state:
  "\<exists>r. \<forall>s. RegNetBackBone_init ds ws gw bt resc mname in_t ishape s = (r, s)"
proof -
  let ?inp = "if resc then Layer (Rescaling (1 / 255)) (parse_model_inputs ishape in_t)
             else parse_model_inputs ishape in_t"
  obtain y where stem: "\<And>s. apply_stem ?inp (Some mname) s = (y, s)"
    by (simp add: apply_stem_def)
  obtain r where loop:
    "\<And>s. stage_loop [0..NUM_STAGES - 1] ds ws gw bt mname y (last (shape y)) s = (r, s)"
    using stage_loop_state by blast
  show ?thesis
    by (cases r) (simp_all add: RegNetBackBone_init_def Let_def stem loop)
qed

section \<open>The serialised configuration\<close>

lemma map_of_update:
  assumes "k \<in> set (map fst new)"
  shows "map_of (update config new) k = map_of new k"
proof -
  have "map_of (filter (\<lambda>kv. fst kv \<notin> set (map fst new)) config) k = None"
    using assms by (force simp: map_of_eq_None_iff)
  then show ?thesis
    by (simp add: update_def map_add_def)
qed

lemma built_config_holds_entries:
  "map_of (update config (config_entries self)) ''depths'' = Some (CInts (depths self))"
  "map_of (update config (config_entries self)) ''widths'' = Some (CInts (widths self))"
  "map_of (update config (config_entries self)) ''group_width'' = Some (CInt (group_width self))"
  "map_of (update config (config_entries self)) ''block_type'' = Some (CStr (block_type self))"
  "map_of (update config (config_entries self)) ''include_rescaling''
     = Some (CBool (include_rescaling self))"
  "map_of (update config (config_entries self)) ''model_name'' = Some (CStr (model_name self))"
  "map_of (update config (config_entries self)) ''input_tensor''
     = Some (CTensor (input_tensor self))"
  "map_of (update config (config_entries self)) ''input_shape''
     = Some (CShape (tl (shape (model_inputs self))))"
  by (simp_all add: map_of_update config_entries_def)

text \<open>
  C2. \<^verbatim>\<open>get_config\<close> hands back no configuration. The dictionary it builds holds the
  eight entries, but the method ends without returning it, so every call, on every
  backbone and whatever the base class contributes, evaluates to \<^verbatim>\<open>None\<close>.
\<close>

theorem get_config_returns_None:
  "get_config super_get_config self = None"
  by (simp add: get_config_def)

section \<open>The exact quotient at the default ratio\<close>

lemma py_int_quarter [simp]: "py_int (of_int fo / (1 / 4)) = 4 * fo"
proof -
  have "(of_int fo :: rat) / (1 / 4) = of_int (4 * fo)"
    by simp
  then show ?thesis
    unfolding py_int_def by (simp only: floor_of_int ceiling_of_int if_cancel)
qed

section \<open>Shapes through the network\<close>

lemma groups_ok:
  assumes "0 < (fo::int)" and "0 < gw" and "fo mod gw = 0"
  shows "0 < fo div gw" and "fo mod (fo div gw) = 0" and "(4 * fo) mod (fo div gw) = 0"
proof -
  from assms(3) have "gw dvd fo"
    by (rule mod_0_imp_dvd)
  then have eq: "fo = gw * (fo div gw)"
    by simp
  with assms(1,2) show pos: "0 < fo div gw"
    by (metis zero_less_mult_pos)
  from eq have dv: "fo div gw dvd fo"
    by (metis dvd_triv_right)
  then show "fo mod (fo div gw) = 0"
    by (simp add: mod_eq_0_iff_dvd)
  from dv show "(4 * fo) mod (fo div gw) = 0"
    by (simp add: mod_eq_0_iff_dvd)
qed

lemma conv2d_bn_strides:
  "main_strides (apply_conv2d_bn x f k st ub g pad ki bn act nm) =
     main_strides x @ (if k = (3, 3) then [st] else [])"
  by (cases act) (simp_all add: apply_conv2d_bn_def Let_def main_strides_def)

lemma conv_len_1x1 [simp]: "conv_output_length d 1 ''valid'' st = down st d"
  by (cases d) (simp_all add: conv_output_length_def down_def)

lemma conv_len_same [simp]: "conv_output_length d k ''same'' st = down st d"
  by (cases d) (simp_all add: conv_output_length_def down_def)

lemma down_1 [simp]: "down 1 d = d"
  by (cases d) (simp_all add: down_def)

lemma conv2d_bn_shape_eq [simp]:
  "shape (apply_conv2d_bn x f k st ub g pad ki bn act nm) =
     layer_shape (Conv2D f k st g ub pad ki nm) (shape x)"
  by (cases act) (simp_all add: apply_conv2d_bn_def Let_def)

lemma conv2d_bn_well_shaped_eq [simp]:
  "well_shaped (apply_conv2d_bn x f k st ub g pad ki bn act nm) =
     (well_shaped x \<and> layer_accepts (Conv2D f k st g ub pad ki nm) (shape x))"
  by (cases act) (auto simp: apply_conv2d_bn_def Let_def split: list.splits option.splits)

lemma main_strides_simps [simp]:
  "main_strides (Input sh) = []"
  "main_strides (Layer l x) = main_strides x @ conv3x3_stride l"
  "main_strides (Add x y) = main_strides x"
  by (simp_all add: main_strides_def)

lemma py_int_times_4 [simp]: "py_int (of_int fo * 4) = 4 * fo"
  using py_int_quarter [of fo] by simp

lemma stage_block_shape:
  assumes ws: "well_shaped x" and sh: "shape x = [b, h, w, Some c]"
    and fo: "0 < fo" and gw: "0 < gw" and dv: "fo mod gw = 0"
    and st1: "stride = 1 \<Longrightarrow> fi = Some fo \<and> c = fo"
  shows "\<exists>t. stage_block bt n fi fo gw stride i x s = (Inr t, s) \<and> well_shaped t \<and>
             shape t = [b, down stride h, down stride w, Some fo] \<and>
             main_strides t = main_strides x @ [stride]"
proof -
  note g = groups_ok [OF fo gw dv]
  from gw have gw0: "gw \<noteq> 0" by simp
  show ?thesis
  proof (cases "stride = 1")
    case True
    with st1 have fi: "fi = Some fo" and c: "c = fo" by simp_all
    show ?thesis
      using ws sh fo g gw0 True fi c
      by (simp add: stage_block_def apply_x_block_def apply_y_block_def apply_z_block_def Let_def
          conv2d_bn_strides)
  next
    case False
    show ?thesis
      using ws sh fo g gw0 False
      by (simp add: stage_block_def apply_x_block_def apply_y_block_def apply_z_block_def Let_def
          conv2d_bn_strides)
  qed
qed


lemma for_loop_shape:
  assumes fo: "0 < fo" and gw: "0 < gw" and dv: "fo mod gw = 0"
  shows "well_shaped x \<Longrightarrow> shape x = [b, h, w, Some fo] \<Longrightarrow>
         \<exists>t. for_loop is (stage_block bt n (Some fo) fo gw 1) x s = (Inr t, s) \<and> well_shaped t \<and>
             shape t = [b, h, w, Some fo] \<and>
             main_strides t = main_strides x @ replicate (length is) 1"
proof (induction "is" arbitrary: x)
  case Nil
  then show ?case by simp
next
  case (Cons i "is")
  from stage_block_shape [OF Cons.prems fo gw dv, of 1 "Some fo" bt n i s]
  obtain t where t: "stage_block bt n (Some fo) fo gw 1 i x s = (Inr t, s)"
    "well_shaped t" "shape t = [b, h, w, Some fo]" "main_strides t = main_strides x @ [1]"
    by auto
  from Cons.IH [OF t(2,3)] t(1,4) show ?case
    by (auto simp: replicate_append_same)
qed

lemma apply_stage_shape:
  assumes ws: "well_shaped x" and sh: "shape x = [b, h, w, Some c]"
    and fo: "0 < fo" and gw: "0 < gw" and dv: "fo mod gw = 0"
    and bt: "bt = ''X'' \<or> bt = ''Y'' \<or> bt = ''Z''"
  shows "\<exists>t. apply_stage x bt depth gw fi fo (Some n) s = (Inr t, s) \<and> well_shaped t \<and>
             shape t = [b, down 2 h, down 2 w, Some fo] \<and>
             main_strides t = main_strides x @ 2 # replicate (nat (depth - 1)) 1"
proof -
  from stage_block_shape [OF ws sh fo gw dv, of 2 fi bt n 0 s]
  obtain t where t: "stage_block bt n fi fo gw 2 0 x s = (Inr t, s)"
    "well_shaped t" "shape t = [b, down 2 h, down 2 w, Some fo]"
    "main_strides t = main_strides x @ [2]"
    by auto
  from for_loop_shape [OF fo gw dv t(2,3), of "[1..depth - 1]" bt n s]
  obtain t' where t': "for_loop [1..depth - 1] (stage_block bt n (Some fo) fo gw 1) t s = (Inr t', s)"
    "well_shaped t'" "shape t' = [b, down 2 h, down 2 w, Some fo]"
    "main_strides t' = main_strides t @ replicate (length [1..depth - 1]) 1"
    by auto
  from bt t t' show ?thesis
    by (simp add: apply_stage_blocks run_blocks_def)
qed

lemma getitem_in_range: "i < length xs \<Longrightarrow> getitem xs (int i) = Inr (xs ! i)"
  by (simp add: getitem_def)

lemma stage_indices: "[0..NUM_STAGES - 1] = [0, 1, 2, 3]"
  by (simp add: NUM_STAGES_def upto_rec1)

lemma stem_shape:
  assumes "well_shaped x" and "shape x = [b, h, w, Some c]"
  shows "\<exists>t. apply_stem x (Some n) s = (t, s) \<and> well_shaped t \<and>
             shape t = [b, down 2 h, down 2 w, Some 32] \<and> main_strides t = main_strides x @ [2]"
  using assms by (simp add: apply_stem_def conv2d_bn_strides)

lemma backbone_shape:
  assumes ok: "hyperparameters_ok ds ws gw bt"
    and img: "well_shaped (parse_model_inputs ishape in_t)"
      "shape (parse_model_inputs ishape in_t) = [b, h, w, Some c]"
  shows "\<exists>m. RegNetBackBone_init ds ws gw bt resc mname in_t ishape s = (Inr m, s) \<and>
             well_shaped (model_outputs m) \<and>
             shape (model_outputs m) =
               [b, down 2 (down 2 (down 2 (down 2 (down 2 h)))),
                down 2 (down 2 (down 2 (down 2 (down 2 w)))), Some (ws ! 3)] \<and>
             main_strides (model_outputs m) =
               main_strides (parse_model_inputs ishape in_t) @
               2 # concat (map (\<lambda>d. 2 # replicate (nat (d - 1)) 1) ds)"
proof -
  from ok have len: "length ds = 4" "length ws = 4" and gw: "0 < gw"
    and bt: "bt = ''X'' \<or> bt = ''Y'' \<or> bt = ''Z''"
    and w: "list_all (\<lambda>w. 0 < w \<and> w mod gw = 0) ws"
    by (simp_all add: hyperparameters_ok_def)
  from len(1) obtain d0 d1 d2 d3 where ds: "ds = [d0, d1, d2, d3]"
    by (auto simp: length_Suc_conv numeral_eq_Suc)
  from len(2) obtain w0 w1 w2 w3 where wsd: "ws = [w0, w1, w2, w3]"
    by (auto simp: length_Suc_conv numeral_eq_Suc)
  from w wsd have wpos: "0 < w0" "0 < w1" "0 < w2" "0 < w3"
    and wdv: "w0 mod gw = 0" "w1 mod gw = 0" "w2 mod gw = 0" "w3 mod gw = 0"
    by simp_all
  let ?img = "parse_model_inputs ishape in_t"
  let ?inp = "if resc then Layer (Rescaling (1 / 255)) ?img else ?img"
  have inp: "well_shaped ?inp" "shape ?inp = [b, h, w, Some c]"
    "main_strides ?inp = main_strides ?img"
    using img by simp_all
  from stem_shape [OF inp(1,2), of mname s] inp(3)
  obtain y where y: "apply_stem ?inp (Some mname) s = (y, s)" "well_shaped y"
    "shape y = [b, down 2 h, down 2 w, Some 32]" "main_strides y = main_strides ?img @ [2]"
    by auto
  from apply_stage_shape [OF y(2,3) wpos(1) gw wdv(1) bt, of d0 "Some 32" "mname @ ''_Stage_'' @ str 0" s]
  obtain x0 where x0: "apply_stage y bt d0 gw (Some 32) w0 (Some (mname @ ''_Stage_'' @ str 0)) s = (Inr x0, s)"
    "well_shaped x0" "shape x0 = [b, down 2 (down 2 h), down 2 (down 2 w), Some w0]"
    "main_strides x0 = main_strides y @ 2 # replicate (nat (d0 - 1)) 1"
    by auto
  from apply_stage_shape [OF x0(2,3) wpos(2) gw wdv(2) bt, of d1 "Some w0" "mname @ ''_Stage_'' @ str 1" s]
  obtain x1 where x1: "apply_stage x0 bt d1 gw (Some w0) w1 (Some (mname @ ''_Stage_'' @ str 1)) s = (Inr x1, s)"
    "well_shaped x1" "shape x1 = [b, down 2 (down 2 (down 2 h)), down 2 (down 2 (down 2 w)), Some w1]"
    "main_strides x1 = main_strides x0 @ 2 # replicate (nat (d1 - 1)) 1"
    by auto
  from apply_stage_shape [OF x1(2,3) wpos(3) gw wdv(3) bt, of d2 "Some w1" "mname @ ''_Stage_'' @ str 2" s]
  obtain x2 where x2: "apply_stage x1 bt d2 gw (Some w1) w2 (Some (mname @ ''_Stage_'' @ str 2)) s = (Inr x2, s)"
    "well_shaped x2"
    "shape x2 = [b, down 2 (down 2 (down 2 (down 2 h))), down 2 (down 2 (down 2 (down 2 w))), Some w2]"
    "main_strides x2 = main_strides x1 @ 2 # replicate (nat (d2 - 1)) 1"
    by auto
  from apply_stage_shape [OF x2(2,3) wpos(4) gw wdv(4) bt, of d3 "Some w2" "mname @ ''_Stage_'' @ str 3" s]
  obtain x3 where x3: "apply_stage x2 bt d3 gw (Some w2) w3 (Some (mname @ ''_Stage_'' @ str 3)) s = (Inr x3, s)"
    "well_shaped x3"
    "shape x3 = [b, down 2 (down 2 (down 2 (down 2 (down 2 h)))),
                 down 2 (down 2 (down 2 (down 2 (down 2 w)))), Some w3]"
    "main_strides x3 = main_strides x2 @ 2 # replicate (nat (d3 - 1)) 1"
    by auto
  have loop: "stage_loop [0..NUM_STAGES - 1] ds ws gw bt mname y (last (shape y)) s = (Inr x3, s)"
    using y(3) x0(1) x1(1) x2(1) x3(1)
    by (simp add: stage_indices ds wsd getitem_def)
  show ?thesis
    using y(1) loop x3(2,3,4) x2(4) x1(4) x0(4) y(4)
    by (simp add: RegNetBackBone_init_def Let_def ds wsd)
qed



lemma down_2_five_times:
  "down 2 (down 2 (down 2 (down 2 (down 2 (Some (32 * k)))))) = Some k"
  by (simp add: down_def)

text \<open>
  C9. For every hyperparameter tuple of the data model (the "regnetx002" entry among
  them) and every input whose height and width are multiples of 32, the output height
  and width are the input's divided by 32; for the input (224, 224, 3) they are 7 by 7.
  The 3x3 convolutions on the main path have the strides: 2 for the stem, then for each
  of the four stages one 2, of its first block, followed by a 1 for each of its remaining
  \<open>depth - 1\<close> blocks.
\<close>

theorem backbone_downsamples_by_32:
  assumes "hyperparameters_ok ds ws gw bt"
  shows "\<exists>m. RegNetBackBone_init ds ws gw bt resc mname None
               [Some (32 * k), Some (32 * l), Some 3] s = (Inr m, s) \<and>
             shape (model_outputs m) = [None, Some k, Some l, Some (ws ! 3)] \<and>
             main_strides (model_outputs m) =
               2 # concat (map (\<lambda>d. 2 # replicate (nat (d - 1)) 1) ds)"
proof -
  let ?ishape = "[Some (32 * k), Some (32 * l), Some 3]"
  have "well_shaped (parse_model_inputs ?ishape None)"
    and "shape (parse_model_inputs ?ishape None) = [None, Some (32 * k), Some (32 * l), Some 3]"
    by (simp_all add: parse_model_inputs_def)
  from backbone_shape [OF assms this, of resc mname s] show ?thesis
    by (auto simp: down_2_five_times parse_model_inputs_def)
qed

theorem backbone_downsamples_by_32_witness:
  "hyperparameters_ok [1, 1, 4, 7] [24, 56, 152, 368] 8 ''X'' \<and>
   (\<exists>m. RegNetBackBone_init [1, 1, 4, 7] [24, 56, 152, 368] 8 ''X'' True ''regnetx002'' None
           [Some 224, Some 224, Some 3] fresh_uids = (Inr m, fresh_uids) \<and>
        shape (model_outputs m) = [None, Some 7, Some 7, Some 368] \<and>
        main_strides (model_outputs m) =
          [2, 2, 2, 2, 1, 1, 1, 2, 1, 1, 1, 1, 1, 1])"
proof -
  have ok: "hyperparameters_ok [1, 1, 4, 7] [24, 56, 152, 368] 8 ''X''"
    by (simp add: hyperparameters_ok_def)
  from backbone_downsamples_by_32
    [OF ok, of True "''regnetx002''" 7 7 fresh_uids] ok
  show ?thesis by (simp add: numeral_eq_Suc)
qed

section \<open>Blocks the framework accepts\<close>

lemma accepted_well_shaped: "accepted t \<Longrightarrow> well_shaped t"
  by (induction t) simp_all

lemma accepted_dims: "accepted t \<Longrightarrow> list_all dim_ok (shape t)"
  by (induction t) (simp_all add: dim_ok_def)

lemma valid_name_append:
  "valid_name n \<Longrightarrow> list_all name_char sfx \<Longrightarrow> valid_name (n @ sfx)"
  by (cases n) (simp_all add: valid_name_def)

lemma digit_char: "n < 10 \<Longrightarrow> name_char (''0123456789'' ! n) \<and> ''0123456789'' ! n \<notin> set ''_.-''"
proof -
  assume "n < 10"
  then have "n \<in> {0, 1, 2, 3, 4, 5, 6, 7, 8, 9}"
    by auto
  then show ?thesis
    by (auto simp: name_char_def)
qed

lemma valid_name_str_nat: "valid_name (str_nat n)"
proof (induction n rule: str_nat.induct)
  case (1 n)
  show ?case
  proof (cases "n < 10")
    case True
    with digit_char [of n] show ?thesis
      by (simp add: str_nat.simps [of n] valid_name_def)
  next
    case False
    with 1 have "valid_name (str_nat (n div 10))"
      by simp
    moreover have "list_all name_char [''0123456789'' ! (n mod 10)]"
      using digit_char [of "n mod 10"] by simp
    ultimately have "valid_name (str_nat (n div 10) @ [''0123456789'' ! (n mod 10)])"
      by (rule valid_name_append)
    with False show ?thesis
      by (simp add: str_nat.simps [of n])
  qed
qed

lemma default_name_valid:
  "name_ok name \<Longrightarrow> valid_name (fst (default_name p name s))"
  by (cases name) (simp_all add: name_ok_def default_name_def get_uid_def str_def valid_name_str_nat)

lemma dim_ok_down: "dim_ok d \<Longrightarrow> 0 < st \<Longrightarrow> dim_ok (down st d)"
proof (cases d)
  case None
  then show ?thesis by (simp add: down_def dim_ok_def)
next
  case (Some n)
  assume "dim_ok d" and st: "0 < st"
  with Some have "0 < n" by (simp add: dim_ok_def)
  with st have "st \<le> n + st - 1" by simp
  with st have "0 < (n + st - 1) div st"
    by (simp add: pos_imp_zdiv_pos_iff)
  with Some show ?thesis by (simp add: down_def dim_ok_def)
qed

lemma conv2d_bn_accepted_eq:
  "accepted (apply_conv2d_bn x f k st ub g pad ki True act nm) =
     (accepted x \<and> layer_ok (Conv2D f k st g ub pad ki nm) \<and>
      layer_accepts (Conv2D f k st g ub pad ki nm) (shape x) \<and>
      list_all dim_ok (layer_shape (Conv2D f k st g ub pad ki nm) (shape x)) \<and>
      valid_name (nm @ ''_bn'') \<and>
      (case act of None \<Rightarrow> True
       | Some a \<Rightarrow> (a = ''relu'' \<or> a = ''silu'') \<and> valid_name (nm @ ''_'' @ a)))"
  by (cases act) (auto simp: apply_conv2d_bn_def Let_def)

lemma valid_suffixes:
  assumes "valid_name n"
  shows "valid_name (n @ ''_skip_1x1'')" "valid_name (n @ ''_skip_1x1_bn'')"
    "valid_name (n @ ''_conv_1x1_1'')" "valid_name (n @ ''_conv_1x1_1_bn'')"
    "valid_name (n @ ''_conv_1x1_1_relu'')" "valid_name (n @ ''_conv_1x1_1_silu'')"
    "valid_name (n @ ''_conv_3x3'')" "valid_name (n @ ''_conv_3x3_bn'')"
    "valid_name (n @ ''_conv_3x3_relu'')" "valid_name (n @ ''_conv_3x3_silu'')"
    "valid_name (n @ ''_conv_1x1_2'')" "valid_name (n @ ''_conv_1x1_2_bn'')"
    "valid_name (n @ ''_exit_relu'')"
  by (rule valid_name_append [OF assms], simp add: name_char_def)+

lemma x_block_accepted:
  assumes acc: "accepted inputs" and sh: "shape inputs = [b, h, w, Some c]"
    and st1: "stride = 1 \<longrightarrow> c = fo" and guard: "\<not> (fi \<noteq> Some fo \<and> stride = 1)"
    and fo: "0 < fo" and gw: "0 < gw" and dv: "fo mod gw = 0" and st: "0 < stride"
    and nm: "name_ok name"
  shows "\<exists>t. fst (apply_x_block inputs fi fo gw stride name s) = Inr t \<and> well_shaped t \<and> accepted t"
proof -
  note g = groups_ok(1,2) [OF fo gw dv]
  from gw have gw0: "gw \<noteq> 0" by simp
  obtain n s' where dn: "default_name ''xblock'' name s = (n, s')"
    by (cases "default_name ''xblock'' name s")
  with default_name_valid [OF nm, of "''xblock''" s] have vn: "valid_name n"
    by simp
  note v = valid_suffixes [OF vn]
  from accepted_dims [OF acc] sh have d: "dim_ok b" "dim_ok h" "dim_ok w"
    by simp_all
  note dd = dim_ok_down [OF d(2) st] dim_ok_down [OF d(3) st]
  have pos: "dim_ok (Some fo)"
    using fo by (simp add: dim_ok_def)
  have ws: "well_shaped inputs"
    using acc by (rule accepted_well_shaped)
  show ?thesis
  proof (cases "stride = 1")
    case True
    with st1 guard have c: "c = fo" and fi: "fi = Some fo" by simp_all
    show ?thesis
      using acc ws sh fo g gw0 True c fi v d pos dn
      by (simp add: apply_x_block_def Let_def conv2d_bn_accepted_eq)
  next
    case False
    show ?thesis
      using acc ws sh fo g gw0 False v d dd pos dn st
      by (simp add: apply_x_block_def Let_def conv2d_bn_accepted_eq)
  qed
qed

lemma y_block_accepted:
  assumes acc: "accepted inputs" and sh: "shape inputs = [b, h, w, Some c]"
    and st1: "stride = 1 \<longrightarrow> c = fo" and guard: "\<not> (fi \<noteq> Some fo \<and> stride = 1)"
    and fo: "0 < fo" and gw: "0 < gw" and dv: "fo mod gw = 0" and st: "0 < stride"
    and nm: "name_ok name"
    and ser: "0 < ser" "ser < 1" "1 \<le> of_int fo * ser"
  shows "\<exists>t. fst (apply_y_block inputs fi fo gw stride ser name s) = Inr t \<and> well_shaped t \<and> accepted t"
proof -
  note g = groups_ok(1,2) [OF fo gw dv]
  from gw have gw0: "gw \<noteq> 0" by simp
  obtain n s' where dn: "default_name ''yblock'' name s = (n, s')"
    by (cases "default_name ''yblock'' name s")
  with default_name_valid [OF nm, of "''yblock''" s] have vn: "valid_name n"
    by simp
  note v = valid_suffixes [OF vn]
  from accepted_dims [OF acc] sh have d: "dim_ok b" "dim_ok h" "dim_ok w"
    by simp_all
  note dd = dim_ok_down [OF d(2) st] dim_ok_down [OF d(3) st]
  have pos: "dim_ok (Some fo)"
    using fo by (simp add: dim_ok_def)
  have ws: "well_shaped inputs"
    using acc by (rule accepted_well_shaped)
  show ?thesis
  proof (cases "stride = 1")
    case True
    with st1 guard have c: "c = fo" and fi: "fi = Some fo" by simp_all
    show ?thesis
      using acc ws sh fo g gw0 True c fi v vn d pos dn ser
      by (simp add: apply_y_block_def Let_def conv2d_bn_accepted_eq)
  next
    case False
    show ?thesis
      using acc ws sh fo g gw0 False v vn d dd pos dn st ser
      by (simp add: apply_y_block_def Let_def conv2d_bn_accepted_eq)
  qed
qed

lemma xy_block_rejected:
  "fi \<noteq> Some fo \<Longrightarrow> stride = 1 \<Longrightarrow>
   fst (apply_x_block inputs fi fo gw stride name s) = Inl ValueError \<and>
   fst (apply_y_block inputs fi fo gw stride ser name s) = Inl ValueError"
  by (simp add: apply_x_block_def apply_y_block_def split: prod.splits)

lemma xy_block_filters_in_unused:
  "stride \<noteq> 1 \<Longrightarrow>
   apply_x_block inputs fi fo gw stride name s = apply_x_block inputs fi' fo gw stride name s \<and>
   apply_y_block inputs fi fo gw stride ser name s =
     apply_y_block inputs fi' fo gw stride ser name s"
  by (simp add: apply_x_block_def apply_y_block_def)

text \<open>
  C3. An X or Y block called with \<open>filters_in \<noteq> filters_out\<close> at stride 1 raises
  \<^verbatim>\<open>ValueError\<close>, whatever its other arguments: the check comes before any layer is
  built, and the error is the value of the construction call. At a stride other than 1
  the value of \<open>filters_in\<close> has no effect on the result. In every other case the block is
  built, on arguments of the data model: an input tensor the framework has accepted, of
  rank 4 with a known channel count, which at stride 1 is \<open>filters_out\<close> (the block adds
  its input to its main path); a positive \<open>filters_out\<close>; a positive group width dividing
  it; a positive stride; a name the framework takes, or none; and for the Y block a
  squeeze-and-excite ratio strictly between 0 and 1 that leaves the gate a channel.
  Built means that the call returns a graph and that the framework accepts every layer
  of it: its arguments, its name and the shape it is called on. So on such arguments the
  construction fails exactly when \<open>filters_in \<noteq> filters_out\<close> and the stride is 1. Off
  the data model the framework can refuse a layer the block has asked for (a group width
  that does not divide \<open>filters_out\<close>, say): the block checks none of that.
\<close>

theorem xy_block_rejects_iff_mismatch_at_stride_1:
  "(fi \<noteq> Some fo \<and> stride = 1 \<longrightarrow>
      fst (apply_x_block inputs fi fo gw stride name s) = Inl ValueError \<and>
      fst (apply_y_block inputs fi fo gw stride ser name s) = Inl ValueError) \<and>
   (stride \<noteq> 1 \<longrightarrow>
      apply_x_block inputs fi fo gw stride name s =
        apply_x_block inputs fi' fo gw stride name s \<and>
      apply_y_block inputs fi fo gw stride ser name s =
        apply_y_block inputs fi' fo gw stride ser name s) \<and>
   (\<not> (fi \<noteq> Some fo \<and> stride = 1) \<and>
    accepted inputs \<and> shape inputs = [b, h, w, Some c] \<and> (stride = 1 \<longrightarrow> c = fo) \<and>
    0 < fo \<and> 0 < gw \<and> fo mod gw = 0 \<and> 0 < stride \<and> name_ok name \<longrightarrow>
      (\<exists>t. fst (apply_x_block inputs fi fo gw stride name s) = Inr t \<and>
           well_shaped t \<and> accepted t) \<and>
      (0 < ser \<and> ser < 1 \<and> 1 \<le> of_int fo * ser \<longrightarrow>
         (\<exists>t. fst (apply_y_block inputs fi fo gw stride ser name s) = Inr t \<and>
              well_shaped t \<and> accepted t)))"
proof (intro conjI impI)
  assume "fi \<noteq> Some fo \<and> stride = 1"
  then show "fst (apply_x_block inputs fi fo gw stride name s) = Inl ValueError"
    and "fst (apply_y_block inputs fi fo gw stride ser name s) = Inl ValueError"
    using xy_block_rejected [of fi fo stride inputs gw name s ser] by simp_all
next
  assume "stride \<noteq> 1"
  then show "apply_x_block inputs fi fo gw stride name s =
               apply_x_block inputs fi' fo gw stride name s"
    and "apply_y_block inputs fi fo gw stride ser name s =
           apply_y_block inputs fi' fo gw stride ser name s"
    using xy_block_filters_in_unused [of stride inputs fi fo gw name s fi' ser] by simp_all
next
  assume h: "\<not> (fi \<noteq> Some fo \<and> stride = 1) \<and>
    accepted inputs \<and> shape inputs = [b, h, w, Some c] \<and> (stride = 1 \<longrightarrow> c = fo) \<and>
    0 < fo \<and> 0 < gw \<and> fo mod gw = 0 \<and> 0 < stride \<and> name_ok name"
  then show "\<exists>t. fst (apply_x_block inputs fi fo gw stride name s) = Inr t \<and>
           well_shaped t \<and> accepted t"
    by (intro x_block_accepted [of inputs b h w c stride fo fi gw name s]) simp_all
  assume "0 < ser \<and> ser < 1 \<and> 1 \<le> of_int fo * ser"
  with h show "\<exists>t. fst (apply_y_block inputs fi fo gw stride ser name s) = Inr t \<and>
           well_shaped t \<and> accepted t"
    by (intro y_block_accepted [of inputs b h w c stride fo fi gw name ser s]) simp_all
qed

text \<open>
  On a tensor of 32 channels, with group width 8, ratio 0.25 and the name "b": 24 output
  filters at stride 1 are rejected; at stride 2 the block is built; and so it is at
  stride 1 with 32 output filters.
\<close>

theorem xy_block_rejects_iff_mismatch_at_stride_1_witness:
  "accepted (Input [None, None, Some 32]) \<and> name_ok (Some ''b'') \<and>
   fst (apply_x_block (Input [None, None, Some 32]) (Some 32) 24 8 1 (Some ''b'') fresh_uids)
     = Inl ValueError \<and>
   fst (apply_y_block (Input [None, None, Some 32]) (Some 32) 24 8 1 (1 / 4) (Some ''b'')
          fresh_uids) = Inl ValueError \<and>
   (\<exists>t. fst (apply_x_block (Input [None, None, Some 32]) (Some 32) 24 8 2 (Some ''b'')
               fresh_uids) = Inr t \<and> well_shaped t \<and> accepted t) \<and>
   (\<exists>t. fst (apply_y_block (Input [None, None, Some 32]) (Some 32) 24 8 2 (1 / 4) (Some ''b'')
               fresh_uids) = Inr t \<and> well_shaped t \<and> accepted t) \<and>
   (\<exists>t. fst (apply_x_block (Input [None, None, Some 32]) (Some 32) 32 8 1 (Some ''b'')
               fresh_uids) = Inr t \<and> well_shaped t \<and> accepted t) \<and>
   (\<exists>t. fst (apply_y_block (Input [None, None, Some 32]) (Some 32) 32 8 1 (1 / 4) (Some ''b'')
               fresh_uids) = Inr t \<and> well_shaped t \<and> accepted t)"
proof -
  let ?x = "Input [None, None, Some 32]"
  have inp: "accepted ?x" "shape ?x = [None, None, None, Some 32]"
    by (simp_all add: dim_ok_def)
  have nm: "name_ok (Some ''b'')"
    by (simp add: name_ok_def valid_name_def name_char_def)
  note rejected = xy_block_rejects_iff_mismatch_at_stride_1
      [of "Some 32" 24 1 ?x 8 "Some ''b''" fresh_uids "1 / 4" "Some 32" None None None 32]
  note built_2 = xy_block_rejects_iff_mismatch_at_stride_1
      [of "Some 32" 24 2 ?x 8 "Some ''b''" fresh_uids "1 / 4" "Some 32" None None None 32]
  note built_1 = xy_block_rejects_iff_mismatch_at_stride_1
      [of "Some 32" 32 1 ?x 8 "Some ''b''" fresh_uids "1 / 4" "Some 32" None None None 32]
  from rejected have r:
    "fst (apply_x_block ?x (Some 32) 24 8 1 (Some ''b'') fresh_uids) = Inl ValueError"
    "fst (apply_y_block ?x (Some 32) 24 8 1 (1 / 4) (Some ''b'') fresh_uids) = Inl ValueError"
    by simp_all
  from built_2 inp nm have b2:
    "\<exists>t. fst (apply_x_block ?x (Some 32) 24 8 2 (Some ''b'') fresh_uids) = Inr t \<and>
         well_shaped t \<and> accepted t"
    "\<exists>t. fst (apply_y_block ?x (Some 32) 24 8 2 (1 / 4) (Some ''b'') fresh_uids) = Inr t \<and>
         well_shaped t \<and> accepted t"
    by simp_all
  from built_1 inp nm have b1:
    "\<exists>t. fst (apply_x_block ?x (Some 32) 32 8 1 (Some ''b'') fresh_uids) = Inr t \<and>
         well_shaped t \<and> accepted t"
    "\<exists>t. fst (apply_y_block ?x (Some 32) 32 8 1 (1 / 4) (Some ''b'') fresh_uids) = Inr t \<and>
         well_shaped t \<and> accepted t"
    by simp_all
  from inp(1) nm r b2 b1 show ?thesis
    by (intro conjI)
qed

section \<open>The Z block\<close>

lemma apply_z_block_exact:
  "apply_z_block inputs fi fo gw stride ser br name s =
   apply_z_block_with exact_quotient inputs fi fo gw stride ser br name s"
  by (simp add: apply_z_block_def apply_z_block_with_def exact_quotient_def Let_def
      split: prod.splits)

lemma z_block_with_graph:
  assumes "fi = Some fo \<or> stride \<noteq> 1" and "gw \<noteq> 0" and "int_quotient fo br = Inr bw"
  shows "fst (apply_z_block_with int_quotient inputs fi fo gw stride ser br name s) =
     Inr (let n = fst (default_name ''zblock'' name s);
              proj = seq_layers
                [Conv2D bw (1, 1) 1 1 False ''valid'' ''he_normal'' (n @ ''_conv_1x1_1''),
                 BatchNormalization (9 / 10) (1 / 100000) (n @ ''_conv_1x1_1_bn''),
                 Activation ''silu'' (n @ ''_conv_1x1_1_silu''),
                 Conv2D bw (3, 3) stride (fo div gw) False ''same'' ''he_normal''
                   (n @ ''_conv_3x3''),
                 BatchNormalization (9 / 10) (1 / 100000) (n @ ''_conv_3x3_bn''),
                 Activation ''silu'' (n @ ''_conv_3x3_silu''),
                 SqueezeAndExcite2D bw ser n,
                 Conv2D fo (1, 1) 1 1 False ''valid'' ''he_normal'' (n @ ''_conv_1x1_2''),
                 BatchNormalization (9 / 10) (1 / 100000) (n @ ''_conv_1x1_2_bn'')] inputs
          in if stride \<noteq> 1 then proj else Add proj inputs)"
  using assms
  by (auto simp: apply_z_block_with_def apply_conv2d_bn_def Let_def split: prod.splits)

lemma z_block_with_accepted:
  assumes guard: "fi = Some fo \<or> stride \<noteq> 1" and q: "int_quotient fo br = Inr bw"
    and acc: "accepted inputs" and sh: "shape inputs = [b, h, w, Some c]"
    and st1: "stride = 1 \<longrightarrow> c = fo"
    and fo: "0 < fo" and g: "0 < fo div gw" and bw: "0 < bw" "bw mod (fo div gw) = 0"
    and st: "0 < stride" and nm: "name_ok name"
    and ser: "0 < ser" "ser < 1" "1 \<le> of_int bw * ser"
  shows "\<exists>t. fst (apply_z_block_with int_quotient inputs fi fo gw stride ser br name s) = Inr t \<and>
             well_shaped t \<and> accepted t"
proof -
  from g have gw0: "gw \<noteq> 0" by (cases "gw = 0") simp_all
  obtain n s' where dn: "default_name ''zblock'' name s = (n, s')"
    by (cases "default_name ''zblock'' name s")
  with default_name_valid [OF nm, of "''zblock''" s] have vn: "valid_name n"
    by simp
  note v = valid_suffixes [OF vn]
  from accepted_dims [OF acc] sh have d: "dim_ok b" "dim_ok h" "dim_ok w"
    by simp_all
  note dd = dim_ok_down [OF d(2) st] dim_ok_down [OF d(3) st]
  have pos: "dim_ok (Some fo)" "dim_ok (Some bw)"
    using fo bw(1) by (simp_all add: dim_ok_def)
  have ws: "well_shaped inputs"
    using acc by (rule accepted_well_shaped)
  show ?thesis
  proof (cases "stride = 1")
    case True
    with st1 guard have c: "c = fo" and fi: "fi = Some fo" by simp_all
    show ?thesis
      using acc ws sh fo g gw0 True c fi v vn d pos dn ser q bw
      by (simp add: apply_z_block_with_def Let_def conv2d_bn_accepted_eq)
  next
    case False
    show ?thesis
      using acc ws sh fo g gw0 False v vn d dd pos dn st ser q bw
      by (simp add: apply_z_block_with_def Let_def conv2d_bn_accepted_eq)
  qed
qed

lemma z_block_with_quotient_error:
  assumes "fi = Some fo \<or> stride \<noteq> 1" and "gw \<noteq> 0" and "int_quotient fo br = Inl e"
  shows "fst (apply_z_block_with int_quotient inputs fi fo gw stride ser br name s) = Inl e"
  using assms by (auto simp: apply_z_block_with_def split: prod.splits)

text \<open>
  C7. The Z block on arguments of the data model, with \<open>bw\<close> the value of
  \<^verbatim>\<open>int(filters_out / bottleneck_ratio)\<close>, whatever float arithmetic makes it: the block
  returns the graph below, and the framework accepts every layer of it. The main path,
  called on the block input, is a 1x1 convolution to the width \<open>bw\<close> with "silu", the 3x3
  convolution of width \<open>bw\<close> with the block's stride and \<open>filters_out // group_width\<close>
  groups with "silu", the squeeze-and-excite gate sized \<open>bw\<close>, and the 1x1 projection to
  \<open>filters_out\<close>, which is followed by its batch normalisation and by no activation. The
  block returns the projection alone at a stride other than 1, and the projection plus
  the block input at stride 1. The arguments: the precondition of C1 passes; the input
  tensor is one the framework has accepted, of rank 4 with a known channel count, which
  at stride 1 is \<open>filters_out\<close>; \<open>filters_out\<close> and \<open>bw\<close> are positive; the group count is
  positive and divides \<open>bw\<close>, the channels the 3x3 convolution takes and gives; the stride is
  positive; the name is one the framework takes, or none; the squeeze-and-excite ratio
  is strictly between 0 and 1 and leaves the gate a channel.
\<close>

theorem z_block_structure:
  assumes "fi = Some fo \<or> stride \<noteq> 1" and "int_quotient fo br = Inr bw"
    and "accepted inputs" and "shape inputs = [b, h, w, Some c]" and "stride = 1 \<longrightarrow> c = fo"
    and "0 < fo" and "0 < fo div gw" and "0 < bw" and "bw mod (fo div gw) = 0"
    and "0 < stride" and "name_ok name"
    and "0 < ser" and "ser < 1" and "1 \<le> of_int bw * ser"
  shows "\<exists>t. fst (apply_z_block_with int_quotient inputs fi fo gw stride ser br name s) = Inr t \<and>
     t = (let n = fst (default_name ''zblock'' name s);
              proj = seq_layers
                [Conv2D bw (1, 1) 1 1 False ''valid'' ''he_normal'' (n @ ''_conv_1x1_1''),
                 BatchNormalization (9 / 10) (1 / 100000) (n @ ''_conv_1x1_1_bn''),
                 Activation ''silu'' (n @ ''_conv_1x1_1_silu''),
                 Conv2D bw (3, 3) stride (fo div gw) False ''same'' ''he_normal''
                   (n @ ''_conv_3x3''),
                 BatchNormalization (9 / 10) (1 / 100000) (n @ ''_conv_3x3_bn''),
                 Activation ''silu'' (n @ ''_conv_3x3_silu''),
                 SqueezeAndExcite2D bw ser n,
                 Conv2D fo (1, 1) 1 1 False ''valid'' ''he_normal'' (n @ ''_conv_1x1_2''),
                 BatchNormalization (9 / 10) (1 / 100000) (n @ ''_conv_1x1_2_bn'')] inputs
          in if stride \<noteq> 1 then proj else Add proj inputs) \<and>
     well_shaped t \<and> accepted t"
proof -
  from assms(7) have gw: "gw \<noteq> 0"
    by (cases "gw = 0") simp_all
  have "\<exists>t. fst (apply_z_block_with int_quotient inputs fi fo gw stride ser br name s) = Inr t \<and>
             well_shaped t \<and> accepted t"
    using assms
    by (intro z_block_with_accepted [where int_quotient = int_quotient and br = br and bw = bw
          and b = b and h = h and w = w and c = c]) simp_all
  then obtain t where t: "fst (apply_z_block_with int_quotient inputs fi fo gw stride ser br name s)
      = Inr t" "well_shaped t" "accepted t"
    by blast
  from t(1) assms(1,2) gw
    z_block_with_graph [where int_quotient = int_quotient and br = br and bw = bw and fi = fi
      and fo = fo and gw = gw and stride = stride and inputs = inputs and ser = ser
      and name = name and s = s]
  have "t = (let n = fst (default_name ''zblock'' name s);
              proj = seq_layers
                [Conv2D bw (1, 1) 1 1 False ''valid'' ''he_normal'' (n @ ''_conv_1x1_1''),
                 BatchNormalization (9 / 10) (1 / 100000) (n @ ''_conv_1x1_1_bn''),
                 Activation ''silu'' (n @ ''_conv_1x1_1_silu''),
                 Conv2D bw (3, 3) stride (fo div gw) False ''same'' ''he_normal''
                   (n @ ''_conv_3x3''),
                 BatchNormalization (9 / 10) (1 / 100000) (n @ ''_conv_3x3_bn''),
                 Activation ''silu'' (n @ ''_conv_3x3_silu''),
                 SqueezeAndExcite2D bw ser n,
                 Conv2D fo (1, 1) 1 1 False ''valid'' ''he_normal'' (n @ ''_conv_1x1_2''),
                 BatchNormalization (9 / 10) (1 / 100000) (n @ ''_conv_1x1_2_bn'')] inputs
          in if stride \<noteq> 1 then proj else Add proj inputs)"
    by simp
  with t show ?thesis
    by blast
qed

text \<open>
  The block as the stage builder calls it after the first of a stage, on a tensor of 24
  channels: 24 filters, group width 8, stride 1 and both ratios 0.25, where the quotient
  24 / 0.25 is exact. The bottleneck width is 96, there are three groups, and the result
  is the sum with the input.
\<close>

theorem z_block_structure_witness:
  "accepted (Input [None, None, Some 24]) \<and> name_ok (Some ''z'') \<and>
   exact_quotient 24 (1 / 4) = Inr 96 \<and>
   fst (apply_z_block (Input [None, None, Some 24]) (Some 24) 24 8 1 (1 / 4) (1 / 4)
          (Some ''z'') fresh_uids) =
     Inr (Add (seq_layers
                [Conv2D 96 (1, 1) 1 1 False ''valid'' ''he_normal'' ''z_conv_1x1_1'',
                 BatchNormalization (9 / 10) (1 / 100000) ''z_conv_1x1_1_bn'',
                 Activation ''silu'' ''z_conv_1x1_1_silu'',
                 Conv2D 96 (3, 3) 1 3 False ''same'' ''he_normal'' ''z_conv_3x3'',
                 BatchNormalization (9 / 10) (1 / 100000) ''z_conv_3x3_bn'',
                 Activation ''silu'' ''z_conv_3x3_silu'',
                 SqueezeAndExcite2D 96 (1 / 4) ''z'',
                 Conv2D 24 (1, 1) 1 1 False ''valid'' ''he_normal'' ''z_conv_1x1_2'',
                 BatchNormalization (9 / 10) (1 / 100000) ''z_conv_1x1_2_bn'']
                (Input [None, None, Some 24]))
            (Input [None, None, Some 24])) \<and>
   (\<exists>t. fst (apply_z_block (Input [None, None, Some 24]) (Some 24) 24 8 1 (1 / 4) (1 / 4)
               (Some ''z'') fresh_uids) = Inr t \<and> well_shaped t \<and> accepted t)"
proof -
  let ?x = "Input [None, None, Some 24]"
  have inp: "accepted ?x" "shape ?x = [None, None, None, Some 24]"
    by (simp_all add: dim_ok_def)
  have nm: "name_ok (Some ''z'')"
    by (simp add: name_ok_def valid_name_def name_char_def)
  have q: "exact_quotient 24 (1 / 4) = Inr 96"
    by (simp add: exact_quotient_def py_int_def)
  have "\<exists>t. fst (apply_z_block_with exact_quotient ?x (Some 24) 24 8 1 (1 / 4) (1 / 4)
                    (Some ''z'') fresh_uids) = Inr t \<and>
     t = (let n = fst (default_name ''zblock'' (Some ''z'') fresh_uids);
              proj = seq_layers
                [Conv2D 96 (1, 1) 1 1 False ''valid'' ''he_normal'' (n @ ''_conv_1x1_1''),
                 BatchNormalization (9 / 10) (1 / 100000) (n @ ''_conv_1x1_1_bn''),
                 Activation ''silu'' (n @ ''_conv_1x1_1_silu''),
                 Conv2D 96 (3, 3) 1 (24 div 8) False ''same'' ''he_normal''
                   (n @ ''_conv_3x3''),
                 BatchNormalization (9 / 10) (1 / 100000) (n @ ''_conv_3x3_bn''),
                 Activation ''silu'' (n @ ''_conv_3x3_silu''),
                 SqueezeAndExcite2D 96 (1 / 4) n,
                 Conv2D 24 (1, 1) 1 1 False ''valid'' ''he_normal'' (n @ ''_conv_1x1_2''),
                 BatchNormalization (9 / 10) (1 / 100000) (n @ ''_conv_1x1_2_bn'')] ?x
          in if (1::int) \<noteq> 1 then proj else Add proj ?x) \<and>
     well_shaped t \<and> accepted t"
    by (rule z_block_structure [where b = None and h = None and w = None and c = 24])
      (simp_all add: inp nm q dim_ok_def)
  then obtain t where t:
    "fst (apply_z_block ?x (Some 24) 24 8 1 (1 / 4) (1 / 4) (Some ''z'') fresh_uids) = Inr t"
    "t = Add (seq_layers
                [Conv2D 96 (1, 1) 1 1 False ''valid'' ''he_normal'' ''z_conv_1x1_1'',
                 BatchNormalization (9 / 10) (1 / 100000) ''z_conv_1x1_1_bn'',
                 Activation ''silu'' ''z_conv_1x1_1_silu'',
                 Conv2D 96 (3, 3) 1 3 False ''same'' ''he_normal'' ''z_conv_3x3'',
                 BatchNormalization (9 / 10) (1 / 100000) ''z_conv_3x3_bn'',
                 Activation ''silu'' ''z_conv_3x3_silu'',
                 SqueezeAndExcite2D 96 (1 / 4) ''z'',
                 Conv2D 24 (1, 1) 1 1 False ''valid'' ''he_normal'' ''z_conv_1x1_2'',
                 BatchNormalization (9 / 10) (1 / 100000) ''z_conv_1x1_2_bn''] ?x) ?x"
    "well_shaped t" "accepted t"
    by (auto simp: apply_z_block_exact Let_def)
  from t(1,2) have eq:
    "fst (apply_z_block ?x (Some 24) 24 8 1 (1 / 4) (1 / 4) (Some ''z'') fresh_uids) =
     Inr (Add (seq_layers
                [Conv2D 96 (1, 1) 1 1 False ''valid'' ''he_normal'' ''z_conv_1x1_1'',
                 BatchNormalization (9 / 10) (1 / 100000) ''z_conv_1x1_1_bn'',
                 Activation ''silu'' ''z_conv_1x1_1_silu'',
                 Conv2D 96 (3, 3) 1 3 False ''same'' ''he_normal'' ''z_conv_3x3'',
                 BatchNormalization (9 / 10) (1 / 100000) ''z_conv_3x3_bn'',
                 Activation ''silu'' ''z_conv_3x3_silu'',
                 SqueezeAndExcite2D 96 (1 / 4) ''z'',
                 Conv2D 24 (1, 1) 1 1 False ''valid'' ''he_normal'' ''z_conv_1x1_2'',
                 BatchNormalization (9 / 10) (1 / 100000) ''z_conv_1x1_2_bn''] ?x) ?x)"
    by (simp only:)
  from t(1,3,4) have ex:
    "\<exists>t. fst (apply_z_block ?x (Some 24) 24 8 1 (1 / 4) (1 / 4) (Some ''z'') fresh_uids)
          = Inr t \<and> well_shaped t \<and> accepted t"
    by blast
  from inp(1) nm q eq ex show ?thesis
    by (intro conjI)
qed

section \<open>Names given by the framework\<close>

lemma name_sums_eq:
  "name_sums k s =
     (map (\<lambda>j. if j = 0 then ''tf.__operators__.add''
               else ''tf.__operators__.add'' @ ''_'' @ str (int j))
        [s ''tf.__operators__.add'' ..< s ''tf.__operators__.add'' + k],
      s(''tf.__operators__.add'' := s ''tf.__operators__.add'' + k))"
proof (induction k arbitrary: s)
  case 0
  show ?case by simp
next
  case (Suc k)
  let ?a = "''tf.__operators__.add''"
  have "[s ?a ..< s ?a + Suc k] = s ?a # [Suc (s ?a) ..< Suc (s ?a) + k]"
    by (simp add: upt_conv_Cons)
  then show ?case
    by (auto simp: Suc.IH unique_object_name_def fun_eq_iff simp del: upt_Suc)
qed

lemma framework_names_full:
  "framework_names m s =
     ((if input_tensor m = None then [''input_'' @ str (int (s ''input'' + 1))] else []) @
      (if include_rescaling m
       then [if s ''rescaling'' = 0 then ''rescaling''
             else ''rescaling'' @ ''_'' @ str (int (s ''rescaling''))]
       else []) @
      map (\<lambda>j. if j = 0 then ''tf.__operators__.add''
                else ''tf.__operators__.add'' @ ''_'' @ str (int j))
        [s ''tf.__operators__.add'' ..<
         s ''tf.__operators__.add'' + sums_above (model_inputs m) (model_outputs m)],
      s(''input'' := s ''input'' + (if input_tensor m = None then 1 else 0),
        ''rescaling'' := s ''rescaling'' + (if include_rescaling m then 1 else 0),
        ''tf.__operators__.add'' :=
           s ''tf.__operators__.add'' + sums_above (model_inputs m) (model_outputs m)))"
  by (auto simp: framework_names_def input_layer_name_def unique_object_name_def get_uid_def
      name_sums_eq fun_eq_iff)

lemma framework_names_counters:
  assumes "same_counters s1 s2"
  shows "fst (framework_names m s1) = fst (framework_names m s2)"
  using assms by (simp add: framework_names_full same_counters_def)

lemma construct_counters:
  assumes "same_counters s1 s2"
  shows "fst (construct_backbone ds ws gw bt resc mname in_t ishape s1) =
         fst (construct_backbone ds ws gw bt resc mname in_t ishape s2)"
proof -
  obtain r where r: "\<And>s. RegNetBackBone_init ds ws gw bt resc mname in_t ishape s = (r, s)"
    using RegNetBackBone_init_state by blast
  show ?thesis
  proof (cases r)
    case (Inl e)
    with r show ?thesis by (simp add: construct_backbone_def)
  next
    case (Inr m)
    with r framework_names_counters [OF assms, of m] show ?thesis
      by (simp add: construct_backbone_def split_beta)
  qed
qed

lemma construct_backbone_part:
  "map_sum id fst (fst (construct_backbone ds ws gw bt resc mname in_t ishape s1)) =
   map_sum id fst (fst (construct_backbone ds ws gw bt resc mname in_t ishape s2))"
proof -
  obtain r where r: "\<And>s. RegNetBackBone_init ds ws gw bt resc mname in_t ishape s = (r, s)"
    using RegNetBackBone_init_state by blast
  show ?thesis
    by (cases r) (simp_all add: construct_backbone_def r split_beta)
qed

lemma conv2d_bn_sums [simp]:
  "sums_above (Input sh) (apply_conv2d_bn x f k st ub g pad ki bn act nm) =
     sums_above (Input sh) x"
  by (cases act) (simp_all add: apply_conv2d_bn_def Let_def)

lemma stage_block_sums:
  assumes "stage_block bt n fi fo gw stride i x s = (Inr t, s')"
  shows "sums_above (Input sh) t = sums_above (Input sh) x + block_sums bt stride"
  using assms
  by (auto simp: stage_block_def apply_x_block_def apply_y_block_def apply_z_block_def Let_def
      block_sums_def split: if_splits)

lemma for_loop_sums:
  "for_loop is (stage_block bt n fi fo gw 1) x s = (Inr t, s') \<Longrightarrow>
   sums_above (Input sh) t = sums_above (Input sh) x + length is"
proof (induction "is" arbitrary: x s)
  case Nil
  then show ?case by simp
next
  case (Cons i "is")
  obtain r s1 where r: "stage_block bt n fi fo gw 1 i x s = (r, s1)"
    by (cases "stage_block bt n fi fo gw 1 i x s")
  show ?case
  proof (cases r)
    case (Inl e)
    with r Cons.prems show ?thesis by simp
  next
    case (Inr x')
    with r Cons.prems have "for_loop is (stage_block bt n fi fo gw 1) x' s1 = (Inr t, s')"
      by simp
    from Cons.IH [OF this] stage_block_sums [OF r [unfolded Inr], of sh] show ?thesis
      by (simp add: block_sums_def)
  qed
qed

lemma apply_stage_sums:
  assumes "apply_stage x bt depth gw fi fo (Some n) s = (Inr t, s')"
  shows "sums_above (Input sh) t =
           sums_above (Input sh) x + block_sums bt 2 + nat (depth - 1)"
proof -
  from assms have bt: "bt = ''X'' \<or> bt = ''Y'' \<or> bt = ''Z''"
    by (auto simp: apply_stage_blocks split: if_splits)
  obtain r s1 where r: "stage_block bt n fi fo gw 2 0 x s = (r, s1)"
    by (cases "stage_block bt n fi fo gw 2 0 x s")
  show ?thesis
  proof (cases r)
    case (Inl e)
    with r bt assms show ?thesis
      by (simp add: apply_stage_blocks run_blocks_def)
  next
    case (Inr x')
    with r bt assms
    have "for_loop [1..depth - 1] (stage_block bt n (Some fo) fo gw 1) x' s1 = (Inr t, s')"
      by (simp add: apply_stage_blocks run_blocks_def)
    from for_loop_sums [OF this, of sh] stage_block_sums [OF r [unfolded Inr], of sh]
    show ?thesis by simp
  qed
qed

lemma stage_loop_sums:
  "stage_loop idx ds ws gw bt mname x c s = (Inr t, s') \<Longrightarrow>
   sums_above (Input sh) t =
     sums_above (Input sh) x +
     sum_list (map (\<lambda>i. case getitem ds i of
                           Inl e \<Rightarrow> 0
                         | Inr d \<Rightarrow> block_sums bt 2 + nat (d - 1)) idx)"
proof (induction idx arbitrary: x c s)
  case Nil
  then show ?case by simp
next
  case (Cons i idx)
  show ?case
  proof (cases "getitem ds i")
    case (Inl e)
    with Cons.prems show ?thesis by simp
  next
    case d: (Inr depth)
    show ?thesis
    proof (cases "getitem ws i")
      case (Inl e)
      with d Cons.prems show ?thesis by simp
    next
      case w: (Inr oc)
      obtain r s1 where r: "apply_stage x bt depth gw c oc
                              (Some (mname @ ''_Stage_'' @ str i)) s = (r, s1)"
        by (cases "apply_stage x bt depth gw c oc (Some (mname @ ''_Stage_'' @ str i)) s")
      show ?thesis
      proof (cases r)
        case (Inl e)
        with d w r Cons.prems show ?thesis by simp
      next
        case (Inr x')
        with d w r Cons.prems
        have "stage_loop idx ds ws gw bt mname x' (Some oc) s1 = (Inr t, s')"
          by simp
        from Cons.IH [OF this] apply_stage_sums [OF r [unfolded Inr], of sh] d
        show ?thesis by simp
      qed
    qed
  qed
qed

lemma backbone_sums:
  assumes "RegNetBackBone_init ds ws gw bt resc mname None ishape s = (Inr m, s')"
  shows "model_inputs m = Input ishape \<and> input_tensor m = None \<and>
         include_rescaling m = resc \<and>
         sums_above (model_inputs m) (model_outputs m) =
           sum_list (map (\<lambda>i. case getitem ds i of
                                 Inl e \<Rightarrow> 0
                               | Inr d \<Rightarrow> block_sums bt 2 + nat (d - 1)) [0, 1, 2, 3])"
proof -
  let ?inp = "if resc then Layer (Rescaling (1 / 255)) (Input ishape) else Input ishape"
  obtain y where stem: "\<And>s. apply_stem ?inp (Some mname) s = (y, s)"
    and y: "sums_above (Input ishape) y = 0"
    by (simp add: apply_stem_def)
  obtain r s1 where loop:
    "stage_loop [0, 1, 2, 3] ds ws gw bt mname y (last (shape y)) s = (r, s1)"
    by (cases "stage_loop [0, 1, 2, 3] ds ws gw bt mname y (last (shape y)) s")
  show ?thesis
  proof (cases r)
    case (Inl e)
    with assms stem loop show ?thesis
      by (simp add: RegNetBackBone_init_def Let_def stage_indices parse_model_inputs_def)
  next
    case (Inr t)
    from stage_loop_sums [OF loop [unfolded Inr], of ishape] y
    have "sums_above (Input ishape) t =
           sum_list (map (\<lambda>i. case getitem ds i of
                                 Inl e \<Rightarrow> 0
                               | Inr d \<Rightarrow> block_sums bt 2 + nat (d - 1)) [0, 1, 2, 3])"
      by simp
    with Inr assms stem loop show ?thesis
      by (auto simp: RegNetBackBone_init_def Let_def stage_indices parse_model_inputs_def)
  qed
qed

lemma regnetx002_construct:
  assumes s: "s ''input'' = i" "s ''rescaling'' = r" "s ''tf.__operators__.add'' = a"
  shows "\<exists>m. construct_backbone [1, 1, 4, 7] [24, 56, 152, 368] 8 ''X'' True ''regnetx002'' None
           [Some 224, Some 224, Some 3] s =
         (Inr (m, [''input_'' @ str (int (i + 1)),
                   if r = 0 then ''rescaling'' else ''rescaling'' @ ''_'' @ str (int r)] @
                  map (\<lambda>j. if j = 0 then ''tf.__operators__.add''
                            else ''tf.__operators__.add'' @ ''_'' @ str (int j))
                    [a ..< a + 13]),
          s(''input'' := i + 1, ''rescaling'' := r + 1, ''tf.__operators__.add'' := a + 13))"
proof -
  have ok: "hyperparameters_ok [1, 1, 4, 7] [24, 56, 152, 368] 8 ''X''"
    by (simp add: hyperparameters_ok_def)
  have "well_shaped (parse_model_inputs [Some 224, Some 224, Some 3] None)"
    and "shape (parse_model_inputs [Some 224, Some 224, Some 3] None) =
           [None, Some 224, Some 224, Some 3]"
    by (simp_all add: parse_model_inputs_def)
  from backbone_shape [OF ok this, of True "''regnetx002''" s]
  obtain m where m: "RegNetBackBone_init [1, 1, 4, 7] [24, 56, 152, 368] 8 ''X'' True
      ''regnetx002'' None [Some 224, Some 224, Some 3] s = (Inr m, s)"
    by blast
  from backbone_sums [OF m]
  have f: "input_tensor m = None" "include_rescaling m"
    "sums_above (model_inputs m) (model_outputs m) = 13"
    by (auto simp: getitem_def block_sums_def)
  show ?thesis
    using s by (simp add: construct_backbone_def m framework_names_full f)
qed

lemma small_strs:
  "str 1 = ''1''" "str 2 = ''2''" "str 3 = ''3''" "str 4 = ''4''" "str 5 = ''5''"
  "str 6 = ''6''" "str 7 = ''7''" "str 8 = ''8''" "str 9 = ''9''" "str 10 = ''10''"
  "str 11 = ''11''" "str 12 = ''12''" "str 13 = ''13''" "str 14 = ''14''" "str 15 = ''15''"
  "str 16 = ''16''" "str 17 = ''17''" "str 18 = ''18''" "str 19 = ''19''" "str 20 = ''20''"
  "str 21 = ''21''" "str 22 = ''22''" "str 23 = ''23''" "str 24 = ''24''" "str 25 = ''25''"
  by (simp_all add: str_def str_nat.simps)

text \<open>
  C8 (as the code has it). The assembler names the stem, every stage and every block
  itself and never draws from the counters, so the backbone it builds is the same
  whatever the counters stand at: the same layers with the same names and arguments, the
  same output shape, or the same error. The units it builds without a name (the input,
  the rescaling layer and the sums) take theirs from the registry: two constructions
  give them the same names as well when they start from counters that agree on the three
  prefixes these names are drawn from, as two constructions in two new processes do.
\<close>

theorem construction_deterministic:
  "map_sum id fst (fst (construct_backbone ds ws gw bt resc mname in_t ishape s1)) =
   map_sum id fst (fst (construct_backbone ds ws gw bt resc mname in_t ishape s2)) \<and>
   (same_counters s1 s2 \<longrightarrow>
      fst (construct_backbone ds ws gw bt resc mname in_t ishape s1) =
      fst (construct_backbone ds ws gw bt resc mname in_t ishape s2))"
  using construct_backbone_part construct_counters by blast

text \<open>
  The "regnetx002" tuple on the input (224, 224, 3), in a new process and in one that
  has drawn five block names before: the same backbone and the same names.
\<close>

theorem construction_deterministic_witness:
  "same_counters fresh_uids (fresh_uids(''xblock'' := 5)) \<and>
   fst (construct_backbone [1, 1, 4, 7] [24, 56, 152, 368] 8 ''X'' True ''regnetx002'' None
          [Some 224, Some 224, Some 3] fresh_uids) =
   fst (construct_backbone [1, 1, 4, 7] [24, 56, 152, 368] 8 ''X'' True ''regnetx002'' None
          [Some 224, Some 224, Some 3] (fresh_uids(''xblock'' := 5)))"
proof -
  have same: "same_counters fresh_uids (fresh_uids(''xblock'' := 5))"
    by (simp add: same_counters_def)
  with construction_deterministic
    [of "[1, 1, 4, 7]" "[24, 56, 152, 368]" 8 "''X''" True "''regnetx002''" None
      "[Some 224, Some 224, Some 3]" fresh_uids "fresh_uids(''xblock'' := 5)"]
  show ?thesis
    by blast
qed

text \<open>
  The claim as the specification words it fails for two constructions in one process.
  The second starts from the counters the first has left, and the fifteen units the
  assembler builds without a name, of the "regnetx002" tuple with rescaling, get other
  names than in the first: the input, the rescaling layer and the thirteen sums.
\<close>

theorem construction_names_counterexample:
  "map_sum id snd
     (fst (construct_backbone [1, 1, 4, 7] [24, 56, 152, 368] 8 ''X'' True ''regnetx002'' None
             [Some 224, Some 224, Some 3] fresh_uids)) =
     Inr
          [''input_1'', ''rescaling'', ''tf.__operators__.add'',
           ''tf.__operators__.add_1'', ''tf.__operators__.add_2'',
           ''tf.__operators__.add_3'', ''tf.__operators__.add_4'',
           ''tf.__operators__.add_5'', ''tf.__operators__.add_6'',
           ''tf.__operators__.add_7'', ''tf.__operators__.add_8'',
           ''tf.__operators__.add_9'', ''tf.__operators__.add_10'',
           ''tf.__operators__.add_11'', ''tf.__operators__.add_12''] \<and>
   map_sum id snd
     (fst (construct_backbone [1, 1, 4, 7] [24, 56, 152, 368] 8 ''X'' True ''regnetx002'' None
             [Some 224, Some 224, Some 3]
             (snd (construct_backbone [1, 1, 4, 7] [24, 56, 152, 368] 8 ''X'' True ''regnetx002'' None
             [Some 224, Some 224, Some 3] fresh_uids)))) =
     Inr
          [''input_2'', ''rescaling_1'', ''tf.__operators__.add_13'',
           ''tf.__operators__.add_14'', ''tf.__operators__.add_15'',
           ''tf.__operators__.add_16'', ''tf.__operators__.add_17'',
           ''tf.__operators__.add_18'', ''tf.__operators__.add_19'',
           ''tf.__operators__.add_20'', ''tf.__operators__.add_21'',
           ''tf.__operators__.add_22'', ''tf.__operators__.add_23'',
           ''tf.__operators__.add_24'', ''tf.__operators__.add_25'']"
proof -
  let ?after = "fresh_uids(''input'' := 1, ''rescaling'' := 1, ''tf.__operators__.add'' := 13)"
  from regnetx002_construct [of fresh_uids 0 0 0]
  obtain m1 where m1: "construct_backbone [1, 1, 4, 7] [24, 56, 152, 368] 8 ''X'' True ''regnetx002'' None
             [Some 224, Some 224, Some 3] fresh_uids =
      (Inr (m1,
            [''input_1'', ''rescaling'', ''tf.__operators__.add'',
             ''tf.__operators__.add_1'', ''tf.__operators__.add_2'',
             ''tf.__operators__.add_3'', ''tf.__operators__.add_4'',
             ''tf.__operators__.add_5'', ''tf.__operators__.add_6'',
             ''tf.__operators__.add_7'', ''tf.__operators__.add_8'',
             ''tf.__operators__.add_9'', ''tf.__operators__.add_10'',
             ''tf.__operators__.add_11'', ''tf.__operators__.add_12'']), ?after)"
    by (auto simp: fresh_uids_def upt_rec small_strs)
  from regnetx002_construct [of ?after 1 1 13]
  obtain m2 where m2: "fst (construct_backbone [1, 1, 4, 7] [24, 56, 152, 368] 8 ''X'' True ''regnetx002'' None
             [Some 224, Some 224, Some 3] ?after) =
      Inr (m2,
            [''input_2'', ''rescaling_1'', ''tf.__operators__.add_13'',
             ''tf.__operators__.add_14'', ''tf.__operators__.add_15'',
             ''tf.__operators__.add_16'', ''tf.__operators__.add_17'',
             ''tf.__operators__.add_18'', ''tf.__operators__.add_19'',
             ''tf.__operators__.add_20'', ''tf.__operators__.add_21'',
             ''tf.__operators__.add_22'', ''tf.__operators__.add_23'',
             ''tf.__operators__.add_24'', ''tf.__operators__.add_25''])"
    by (auto simp: upt_rec small_strs)
  show ?thesis
    by (simp only: m1 fst_conv snd_conv m2 map_sum.simps id_apply)
qed

section \<open>The rescaling flag\<close>

lemma replace_self [simp]: "replace a b a = b"
  by (cases a) simp_all

lemma built_on_self [simp]: "built_on a a"
  by (cases a) simp_all

lemma built_on_size: "built_on a t \<Longrightarrow> size a \<le> size t"
  by (induction t) auto

lemma built_on_Layer [simp]: "built_on a x \<Longrightarrow> built_on a (Layer l x)"
  by simp

lemma built_on_Add [simp]: "built_on a x \<Longrightarrow> built_on a y \<Longrightarrow> built_on a (Add x y)"
  by simp

lemma replace_Layer [simp]:
  "built_on a x \<Longrightarrow> replace a b (Layer l x) = Layer l (replace a b x)"
  using built_on_size [of a x] by auto

lemma replace_Add [simp]:
  "built_on a x \<Longrightarrow> replace a b (Add x y) = Add (replace a b x) (replace a b y)"
  using built_on_size [of a x] by auto

lemma conv2d_bn_built_on [simp]:
  "built_on a x \<Longrightarrow> built_on a (apply_conv2d_bn x f k st ub g pad ki bn act nm)"
  by (cases act) (simp_all add: apply_conv2d_bn_def Let_def del: built_on.simps)

lemma conv2d_bn_replace [simp]:
  "built_on a x \<Longrightarrow>
   replace a b (apply_conv2d_bn x f k st ub g pad ki bn act nm) =
     apply_conv2d_bn (replace a b x) f k st ub g pad ki bn act nm"
  by (cases act) (simp_all add: apply_conv2d_bn_def Let_def del: built_on.simps replace.simps)

lemma lift_result_simps [simp]:
  "lift_result f (Inl e, s) = (Inl e, s)"
  "lift_result f (Inr t, s) = (Inr (f t), s)"
  by (simp_all add: lift_result_def)

lemma stage_block_replace:
  assumes "built_on a x"
  shows "stage_block bt n fi fo gw stride i (replace a b x) s =
           lift_result (replace a b) (stage_block bt n fi fo gw stride i x s)"
  using assms
  by (auto simp: stage_block_def apply_x_block_def apply_y_block_def apply_z_block_def Let_def
      simp del: built_on.simps replace.simps split: if_splits)

lemma stage_block_built_on:
  assumes "built_on a x"
  shows "stage_block bt n fi fo gw stride i x s = (Inr t, s') \<Longrightarrow> built_on a t"
  using assms
  by (auto simp: stage_block_def apply_x_block_def apply_y_block_def apply_z_block_def Let_def
      simp del: built_on.simps replace.simps split: if_splits)

lemma for_loop_replace:
  assumes body: "\<And>i x s. built_on a x \<Longrightarrow>
      body i (replace a b x) s = lift_result (replace a b) (body i x s)"
    and inv: "\<And>i x s t s'. built_on a x \<Longrightarrow> body i x s = (Inr t, s') \<Longrightarrow> built_on a t"
  shows "built_on a x \<Longrightarrow>
         for_loop is body (replace a b x) s = lift_result (replace a b) (for_loop is body x s) \<and>
         (\<forall>t s'. for_loop is body x s = (Inr t, s') \<longrightarrow> built_on a t)"
proof (induction "is" arbitrary: x s)
  case Nil
  then show ?case by simp
next
  case (Cons i "is")
  show ?case
  proof (cases "body i x s")
    case (Pair r s1)
    show ?thesis
    proof (cases r)
      case (Inl e)
      with Pair body [OF Cons.prems, of i s] show ?thesis by simp
    next
      case (Inr x1)
      with Pair inv [OF Cons.prems, of i s x1 s1] have "built_on a x1" by simp
      from Cons.IH [OF this, of s1] Pair Inr body [OF Cons.prems, of i s] show ?thesis
        by simp
    qed
  qed
qed

lemma apply_stage_replace:
  assumes "built_on a x"
  shows "apply_stage (replace a b x) bt depth gw fi fo name s =
           lift_result (replace a b) (apply_stage x bt depth gw fi fo name s) \<and>
         (\<forall>t s'. apply_stage x bt depth gw fi fo name s = (Inr t, s') \<longrightarrow> built_on a t)"
proof (cases "bt = ''X'' \<or> bt = ''Y'' \<or> bt = ''Z''")
  case False
  then show ?thesis
    by (simp add: apply_stage_blocks split: prod.splits)
next
  case True
  obtain n s0 where d: "default_name ''stage'' name s = (n, s0)"
    by (cases "default_name ''stage'' name s")
  note first = stage_block_replace
    [OF assms, where bt = bt and n = n and fi = fi and fo = fo and gw = gw and stride = 2
       and i = 0 and b = b and s = s0]
    stage_block_built_on
    [OF assms, where bt = bt and n = n and fi = fi and fo = fo and gw = gw and stride = 2
       and i = 0 and s = s0]
  show ?thesis
  proof (cases "stage_block bt n fi fo gw 2 0 x s0")
    case (Pair r s1)
    show ?thesis
    proof (cases r)
      case (Inl e)
      with Pair first(1) True d show ?thesis
        by (simp add: apply_stage_blocks run_blocks_def)
    next
      case (Inr x1)
      with Pair first(2) have x1: "built_on a x1" by simp
      have "for_loop [1..depth - 1] (stage_block bt n (Some fo) fo gw 1) (replace a b x1) s1 =
              lift_result (replace a b)
                (for_loop [1..depth - 1] (stage_block bt n (Some fo) fo gw 1) x1 s1) \<and>
            (\<forall>t s'. for_loop [1..depth - 1] (stage_block bt n (Some fo) fo gw 1) x1 s1 = (Inr t, s')
               \<longrightarrow> built_on a t)"
        by (rule for_loop_replace [OF _ _ x1]) (simp_all add: stage_block_replace stage_block_built_on del: built_on.simps replace.simps)
      with Pair Inr first(1) True d show ?thesis
        by (simp add: apply_stage_blocks run_blocks_def)
    qed
  qed
qed

lemma stage_loop_replace:
  "built_on a x \<Longrightarrow>
   stage_loop idx ds ws gw bt mname (replace a b x) c s =
     lift_result (replace a b) (stage_loop idx ds ws gw bt mname x c s) \<and>
   (\<forall>t s'. stage_loop idx ds ws gw bt mname x c s = (Inr t, s') \<longrightarrow> built_on a t)"
proof (induction idx arbitrary: x c s)
  case Nil
  then show ?case by simp
next
  case (Cons i idx)
  show ?case
  proof (cases "getitem ds i")
    case (Inl e)
    then show ?thesis by simp
  next
    case d: (Inr depth)
    show ?thesis
    proof (cases "getitem ws i")
      case (Inl e)
      with d show ?thesis by simp
    next
      case w: (Inr oc)
      note st = apply_stage_replace
        [OF Cons.prems, where b = b and bt = bt and depth = depth and gw = gw and fi = c
           and fo = oc and name = "Some (mname @ ''_Stage_'' @ str i)" and s = s]
      show ?thesis
      proof (cases "apply_stage x bt depth gw c oc (Some (mname @ ''_Stage_'' @ str i)) s")
        case (Pair r s1)
        show ?thesis
        proof (cases r)
          case (Inl e)
          with Pair st d w show ?thesis by simp
        next
          case (Inr x1)
          with Pair st have "built_on a x1" by simp
          from Cons.IH [OF this, of "Some oc" s1] Pair Inr st d w show ?thesis by simp
        qed
      qed
    qed
  qed
qed

lemma finite_nodes [simp]: "finite (nodes t)"
  by (induction t) simp_all

lemma nodes_size: "u \<in> nodes t \<Longrightarrow> size u \<le> size t"
  by (induction t) auto

lemma self_in_nodes [simp]: "t \<in> nodes t"
  by (cases t) simp_all

lemma built_on_nodes_subset: "built_on a t \<Longrightarrow> nodes a \<subseteq> nodes t"
  by (induction t) auto

lemma built_on_above: "built_on a t \<Longrightarrow> t \<noteq> a \<Longrightarrow> size a < size t"
  by (cases t) (auto dest: built_on_size)

lemma built_on_above_not_node: "built_on a t \<Longrightarrow> t \<noteq> a \<Longrightarrow> t \<notin> nodes a"
  using built_on_above nodes_size by fastforce

lemma nodes_built_on:
  "built_on a t \<Longrightarrow> u \<in> nodes t \<Longrightarrow> u \<in> nodes a \<or> built_on a u \<and> u \<noteq> a"
proof (induction t)
  case (Input sh)
  then show ?case by auto
next
  case (Layer l x)
  show ?case
  proof (cases "Layer l x = a")
    case True
    with Layer.prems show ?thesis by auto
  next
    case False
    with Layer show ?thesis by auto
  qed
next
  case (Add x y)
  show ?case
  proof (cases "Add x y = a")
    case True
    with Add.prems show ?thesis by auto
  next
    case False
    with Add show ?thesis by auto
  qed
qed

lemma size_replace:
  "built_on a t \<Longrightarrow>
   size a < size (replace a (Layer l a) t) \<and> (t \<noteq> a \<longrightarrow> size a + 1 < size (replace a (Layer l a) t))"
proof (induction t)
  case (Input sh)
  then show ?case by auto
next
  case (Layer l' x)
  show ?case
  proof (cases "Layer l' x = a")
    case True
    then show ?thesis by auto
  next
    case False
    with Layer show ?thesis by auto
  qed
next
  case (Add x y)
  show ?case
  proof (cases "Add x y = a")
    case True
    then show ?thesis by auto
  next
    case False
    with Add show ?thesis by auto
  qed
qed

lemma replace_inverse:
  "built_on a t \<Longrightarrow> replace (Layer l a) a (replace a (Layer l a) t) = t"
proof (induction t)
  case (Input sh)
  then show ?case by auto
next
  case (Layer l' x)
  show ?case
  proof (cases "Layer l' x = a")
    case True
    then show ?thesis by (simp del: replace.simps)
  next
    case False
    with Layer.prems have x: "built_on a x" by simp
    with size_replace [OF x, of l] have "replace a (Layer l a) x \<noteq> a"
      by auto
    with False x Layer.IH show ?thesis by simp
  qed
next
  case (Add x y)
  show ?case
  proof (cases "Add x y = a")
    case True
    then show ?thesis by (simp del: replace.simps)
  next
    case False
    with Add show ?thesis by simp
  qed
qed

lemma nodes_replace:
  "built_on a t \<Longrightarrow>
   nodes (replace a (Layer l a) t) =
     insert (Layer l a) (nodes a) \<union> replace a (Layer l a) ` (nodes t - nodes a)"
proof (induction t)
  case (Input sh)
  then show ?case by auto
next
  case (Layer l' x)
  show ?case
  proof (cases "Layer l' x = a")
    case True
    show ?thesis
      by (simp only: True replace_self Diff_cancel image_empty Un_empty_right
          nodes.simps(2) [of l a])
  next
    case False
    with Layer.prems have x: "built_on a x" by simp
    from built_on_above_not_node [OF Layer.prems False]
    have "nodes (Layer l' x) - nodes a = insert (Layer l' x) (nodes x - nodes a)"
      by auto
    with False x Layer.IH show ?thesis
      by (simp del: nodes.simps add: nodes.simps(2) [of l' "replace a (Layer l a) x"])
  qed
next
  case (Add x y)
  show ?case
  proof (cases "Add x y = a")
    case True
    show ?thesis
      by (simp only: True replace_self Diff_cancel image_empty Un_empty_right
          nodes.simps(2) [of l a])
  next
    case False
    with Add.prems have xy: "built_on a x" "built_on a y" by simp_all
    from built_on_above_not_node [OF Add.prems False]
    have "nodes (Add x y) - nodes a = insert (Add x y) ((nodes x - nodes a) \<union> (nodes y - nodes a))"
      by auto
    with False xy Add.IH show ?thesis
      by (simp del: nodes.simps
          add: nodes.simps(3) [of "replace a (Layer l a) x" "replace a (Layer l a) y"] image_Un)
        blast
  qed
qed

lemma card_nodes_replace:
  assumes "built_on a t"
  shows "card (nodes (replace a (Layer l a) t)) = card (nodes t) + 1"
proof -
  let ?r = "Layer l a" and ?U = "nodes t - nodes a"
  let ?f = "replace a ?r"
  have above: "built_on a u \<and> u \<noteq> a" if "u \<in> ?U" for u
    using nodes_built_on [OF assms, of u] that by auto
  have inj: "inj_on ?f ?U"
  proof (rule inj_on_inverseI)
    fix u assume "u \<in> ?U"
    with above show "replace ?r a (?f u) = u"
      by (simp add: replace_inverse)
  qed
  have r: "?r \<notin> nodes a"
    using nodes_size [of ?r a] by auto
  have disj: "?f ` ?U \<inter> insert ?r (nodes a) = {}"
  proof -
    have "?f u \<notin> insert ?r (nodes a)" if "u \<in> ?U" for u
    proof -
      from above [OF that] size_replace [of a u l] have "size a + 1 < size (?f u)"
        by simp
      then show ?thesis
        using nodes_size [of "?f u" a] by auto
    qed
    then show ?thesis by blast
  qed
  have "card (nodes (?f t)) = card (insert ?r (nodes a) \<union> ?f ` ?U)"
    by (simp only: nodes_replace [OF assms])
  also have "\<dots> = card (insert ?r (nodes a)) + card (?f ` ?U)"
    using disj by (intro card_Un_disjoint) auto
  also have "\<dots> = Suc (card (nodes a)) + card ?U"
    using r inj by (simp add: card_image)
  also have "\<dots> = card (nodes t) + 1"
    using built_on_nodes_subset [OF assms] by (simp add: card_Diff_subset card_mono)
  finally show ?thesis .
qed


lemma stem_replace:
  "built_on a x \<Longrightarrow>
   apply_stem (replace a b x) name s = (replace a b (fst (apply_stem x name s)), snd (apply_stem x name s)) \<and>
   built_on a (fst (apply_stem x name s))"
  by (simp add: apply_stem_def split: prod.splits del: built_on.simps replace.simps)

lemma stem_channels:
  "last (shape (fst (apply_stem (Layer (Rescaling q) x) name s))) = last (shape (fst (apply_stem x name s)))"
  by (simp add: apply_stem_def split: prod.splits list.splits)

lemma rescaling_replace:
  shows "RegNetBackBone_init ds ws gw bt True mname in_t ishape s =
     (case RegNetBackBone_init ds ws gw bt False mname in_t ishape s of
        (Inl e, s') \<Rightarrow> (Inl e, s')
      | (Inr m, s') \<Rightarrow> (Inr (with_rescaling m), s'))"
  and "RegNetBackBone_init ds ws gw bt False mname in_t ishape s = (Inr m, s') \<Longrightarrow>
       built_on (model_inputs m) (model_outputs m)"
proof -
  let ?img = "parse_model_inputs ishape in_t"
  let ?r = "Layer (Rescaling (1 / 255)) ?img"
  obtain y s0 where y: "apply_stem ?img (Some mname) s = (y, s0)"
    by (cases "apply_stem ?img (Some mname) s")
  have img: "built_on ?img ?img" by simp
  from stem_replace [OF img, of ?r "Some mname" s] y
  have y': "apply_stem ?r (Some mname) s = (replace ?img ?r y, s0)" and on_y: "built_on ?img y"
    by (simp_all del: built_on.simps replace.simps)
  from stem_channels [of "1 / 255" ?img "Some mname" s] y y'
  have ch: "last (shape (replace ?img ?r y)) = last (shape y)"
    by simp
  note loop = stage_loop_replace [OF on_y, where b = ?r and idx = "[0..NUM_STAGES - 1]"
      and ds = ds and ws = ws and gw = gw and bt = bt and mname = mname and c = "last (shape y)"
      and s = s0]
  obtain r s1 where r: "stage_loop [0..NUM_STAGES - 1] ds ws gw bt mname y (last (shape y)) s0 = (r, s1)"
    by (cases "stage_loop [0..NUM_STAGES - 1] ds ws gw bt mname y (last (shape y)) s0")
  show "RegNetBackBone_init ds ws gw bt True mname in_t ishape s =
     (case RegNetBackBone_init ds ws gw bt False mname in_t ishape s of
        (Inl e, s') \<Rightarrow> (Inl e, s')
      | (Inr m, s') \<Rightarrow> (Inr (with_rescaling m), s'))"
    using y y' ch loop r
    by (cases r) (simp_all add: RegNetBackBone_init_def Let_def with_rescaling_def
        del: built_on.simps replace.simps)
  show "built_on (model_inputs m) (model_outputs m)"
    if "RegNetBackBone_init ds ws gw bt False mname in_t ishape s = (Inr m, s')"
    using that y loop r
    by (cases r) (auto simp: RegNetBackBone_init_def Let_def simp del: built_on.simps replace.simps)
qed

text \<open>
  C6. With every other parameter fixed, the assembler called with the rescaling flag on
  ends as it does with the flag off: in the same error, or in the backbone of the flag-off
  call in which the model input is replaced, wherever the graph reads it, by the layer
  \<^verbatim>\<open>Rescaling(1/255)\<close> called on the model input. Nothing else of the graph differs, and
  the graph has exactly one node more.
\<close>

theorem rescaling_adds_one_unit:
  "fst (RegNetBackBone_init ds ws gw bt True mname in_t ishape s) =
     map_sum id with_rescaling (fst (RegNetBackBone_init ds ws gw bt False mname in_t ishape s)) \<and>
   (case fst (RegNetBackBone_init ds ws gw bt False mname in_t ishape s) of
      Inl e \<Rightarrow> True
    | Inr m \<Rightarrow>
        card (nodes (model_outputs (with_rescaling m))) = card (nodes (model_outputs m)) + 1)"
proof (cases "RegNetBackBone_init ds ws gw bt False mname in_t ishape s")
  case (Pair r s')
  show ?thesis
  proof (cases r)
    case (Inl e)
    with Pair rescaling_replace(1) [of ds ws gw bt mname in_t ishape s] show ?thesis
      by simp
  next
    case (Inr m)
    with Pair rescaling_replace(2) [of ds ws gw bt mname in_t ishape s m s']
    have "built_on (model_inputs m) (model_outputs m)" by simp
    from card_nodes_replace [OF this, of "Rescaling (1 / 255)"]
      Pair Inr rescaling_replace(1) [of ds ws gw bt mname in_t ishape s]
    show ?thesis
      by (simp add: with_rescaling_def)
  qed
qed

text \<open>One block per stage, 8 filters throughout, on the default input shape.\<close>

theorem rescaling_adds_one_unit_witness:
  "\<exists>m. fst (RegNetBackBone_init [1, 1, 1, 1] [8, 8, 8, 8] 8 ''X'' False ''r'' None
              [None, None, Some 3] fresh_uids) = Inr m \<and>
       fst (RegNetBackBone_init [1, 1, 1, 1] [8, 8, 8, 8] 8 ''X'' True ''r'' None
              [None, None, Some 3] fresh_uids) = Inr (with_rescaling m) \<and>
       card (nodes (model_outputs (with_rescaling m))) = card (nodes (model_outputs m)) + 1"
proof -
  have ok: "hyperparameters_ok [1, 1, 1, 1] [8, 8, 8, 8] 8 ''X''"
    by (simp add: hyperparameters_ok_def)
  have "well_shaped (parse_model_inputs [None, None, Some 3] None)"
    and "shape (parse_model_inputs [None, None, Some 3] None) = [None, None, None, Some 3]"
    by (simp_all add: parse_model_inputs_def)
  from backbone_shape [OF ok this, of False "''r''" fresh_uids]
  obtain m where m: "fst (RegNetBackBone_init [1, 1, 1, 1] [8, 8, 8, 8] 8 ''X'' False ''r'' None
              [None, None, Some 3] fresh_uids) = Inr m"
    by auto
  with rescaling_adds_one_unit
    [of "[1, 1, 1, 1]" "[8, 8, 8, 8]" 8 "''X''" "''r''" None "[None, None, Some 3]" fresh_uids]
  show ?thesis by simp
qed

section \<open>The preset tables are returned as deep copies\<close>

lemma ref_within_mono: "ref_within lo hi v \<Longrightarrow> lo' \<le> lo \<Longrightarrow> hi \<le> hi' \<Longrightarrow> ref_within lo' hi' v"
  by (cases v) auto

lemma refs_within_mono:
  "refs_within lo hi vs \<Longrightarrow> lo' \<le> lo \<Longrightarrow> hi \<le> hi' \<Longrightarrow> refs_within lo' hi' vs"
  by (auto simp: refs_within_def list_all_iff intro: ref_within_mono)

lemma objs_within_mono:
  "objs_within lo hi os \<Longrightarrow> lo' \<le> lo \<Longrightarrow> hi \<le> hi' \<Longrightarrow> objs_within lo' hi' os"
  by (auto simp: objs_within_def list_all_iff intro: refs_within_mono)

lemma refs_within_simps [simp]:
  "refs_within lo hi []"
  "refs_within lo hi (v # vs) = (ref_within lo hi v \<and> refs_within lo hi vs)"
  by (simp_all add: refs_within_def)

lemma objs_within_simps [simp]:
  "objs_within lo hi []"
  "objs_within lo hi (ob # os) = (refs_within lo hi (values_of ob) \<and> objs_within lo hi os)"
  "objs_within lo hi (os @ os') = (objs_within lo hi os \<and> objs_within lo hi os')"
  by (simp_all add: objs_within_def)

lemma refs_within_zip:
  "refs_within lo hi vs \<Longrightarrow> refs_within lo hi (map snd (zip ks vs))"
  by (auto simp: refs_within_def list_all_iff dest: set_zip_rightD)

lemma copied_mono: "copied lo hi v v' \<Longrightarrow> lo' \<le> lo \<Longrightarrow> hi \<le> hi' \<Longrightarrow> copied lo' hi' v v'"
  by (cases v; cases v') auto

lemma copied_ref_within: "copied lo hi v v' \<Longrightarrow> ref_within lo hi v'"
  by (cases v; cases v') auto

lemma copied_all_refs_within: "list_all2 (copied lo hi) vs vs' \<Longrightarrow> refs_within lo hi vs'"
  by (induction vs vs' rule: list_all2_induct) (auto intro: copied_ref_within)

lemma deepcopy_extends:
  "deepcopy fuel h v = Some (v', h') \<Longrightarrow>
     \<exists>ext. h' = h @ ext \<and> copied (length h) (length h') v v' \<and>
           objs_within (length h) (length h') ext"
  "deepcopy_all fuel h vs = Some (vs', h') \<Longrightarrow>
     \<exists>ext. h' = h @ ext \<and> list_all2 (copied (length h) (length h')) vs vs' \<and>
           objs_within (length h) (length h') ext"
proof (induction fuel h v and fuel h vs arbitrary: v' h' and vs' h' rule: deepcopy_deepcopy_all.induct)
  case (1 fuel h a)
  from "1.prems" obtain n where fuel: "fuel = Suc n" and a: "a < length h"
    by (cases fuel) (auto split: if_splits)
  show ?case
  proof (cases "h ! a")
    case (PList vs)
    with "1.prems" fuel a obtain vs' h1 where
      c: "deepcopy_all n h vs = Some (vs', h1)" and r: "v' = PRef (length h1)" "h' = h1 @ [PList vs']"
      by (auto split: option.splits)
    from "1.IH"(1) [OF fuel a PList c] obtain ext where
      ext: "h1 = h @ ext" "list_all2 (copied (length h) (length h1)) vs vs'"
        "objs_within (length h) (length h1) ext"
      by blast
    from ext(2) have "refs_within (length h) (length h1) vs'"
      by (rule copied_all_refs_within)
    then have "refs_within (length h) (length h') vs'"
      by (rule refs_within_mono) (simp_all add: r)
    moreover from ext(3) have "objs_within (length h) (length h') ext"
      by (rule objs_within_mono) (simp_all add: r)
    ultimately show ?thesis
      using r ext(1) by simp
  next
    case (PDict kvs)
    with "1.prems" fuel a obtain vs' h1 where
      c: "deepcopy_all n h (map snd kvs) = Some (vs', h1)"
      and r: "v' = PRef (length h1)" "h' = h1 @ [PDict (zip (map fst kvs) vs')]"
      by (auto split: option.splits)
    from "1.IH"(2) [OF fuel a PDict c] obtain ext where
      ext: "h1 = h @ ext" "list_all2 (copied (length h) (length h1)) (map snd kvs) vs'"
        "objs_within (length h) (length h1) ext"
      by blast
    from ext(2) have "refs_within (length h) (length h1) vs'"
      by (rule copied_all_refs_within)
    then have "refs_within (length h) (length h') vs'"
      by (rule refs_within_mono) (simp_all add: r)
    then have "refs_within (length h) (length h') (map snd (zip (map fst kvs) vs'))"
      by (rule refs_within_zip)
    moreover from ext(3) have "objs_within (length h) (length h') ext"
      by (rule objs_within_mono) (simp_all add: r)
    ultimately show ?thesis
      using r ext(1) by simp
  qed
next
  case (3 fuel h)
  then show ?case by simp
next
  case (4 fuel h v vs)
  from "4.prems" obtain v1 h1 vs1 where
    c: "deepcopy fuel h v = Some (v1, h1)" "deepcopy_all fuel h1 vs = Some (vs1, h')"
    and r: "vs' = v1 # vs1"
    by (auto split: option.splits)
  from "4.IH"(1) [OF c(1)] obtain e1 where
    e1: "h1 = h @ e1" "copied (length h) (length h1) v v1" "objs_within (length h) (length h1) e1"
    by blast
  from "4.IH"(2) [OF c(1) refl c(2)] obtain e2 where
    e2: "h' = h1 @ e2" "list_all2 (copied (length h1) (length h')) vs vs1"
      "objs_within (length h1) (length h') e2"
    by blast
  have le: "length h \<le> length h1" "length h1 \<le> length h'"
    using e1(1) e2(1) by simp_all
  from e1(2) have "copied (length h) (length h') v v1"
    by (rule copied_mono) (use le in simp_all)
  moreover have "list_all2 (copied (length h) (length h')) vs vs1"
    using e2(2)
  proof (rule list_all2_mono)
    fix x y assume "copied (length h1) (length h') x y"
    then show "copied (length h) (length h') x y"
      by (rule copied_mono) (use le in simp_all)
  qed
  moreover from e1(3) have "objs_within (length h) (length h') e1"
    by (rule objs_within_mono) (use le in simp_all)
  moreover from e2(3) have "objs_within (length h) (length h') e2"
    by (rule objs_within_mono) (use le in simp_all)
  ultimately show ?case
    using r e1(1) e2(1) by simp
qed auto

lemma repr_frame:
  assumes "length h \<le> length h'" and "\<And>a. a < length h \<Longrightarrow> h' ! a = h ! a"
  shows "repr h v t \<Longrightarrow> repr h' v t"
proof (induction t arbitrary: v)
  case (TList ts)
  then obtain a vs where v: "v = PRef a" "a < length h" "h ! a = PList vs"
    and all: "list_all2 (\<lambda>t v. repr h v t) ts vs"
    by (auto split: pyval.splits pyobj.splits)
  from all have "list_all2 (\<lambda>t v. repr h' v t) ts vs"
    by (rule list.rel_mono_strong) (use TList.IH in auto)
  with v assms show ?case by simp
next
  case (TDict kts)
  then obtain a kvs where v: "v = PRef a" "a < length h" "h ! a = PDict kvs"
    and keys: "map fst kvs = map fst kts"
    and all: "list_all2 (\<lambda>t v. repr h v t) (map snd kts) (map snd kvs)"
    by (auto split: pyval.splits pyobj.splits)
  from all have "list_all2 (\<lambda>t v. repr h' v t) (map snd kts) (map snd kvs)"
    by (rule list.rel_mono_strong) (use TDict.IH in fastforce)
  with v keys assms show ?case by simp
qed simp_all

lemma repr_append: "repr h v t \<Longrightarrow> repr (h @ ext) v t"
  by (rule repr_frame [of h]) (simp_all add: nth_append)

lemma fold_max_ge_init: "(b::nat) \<le> fold max xs b"
proof (induction xs arbitrary: b)
  case Nil
  show ?case by simp
next
  case (Cons x xs)
  have "b \<le> max x b" by simp
  also have "\<dots> \<le> fold max xs (max x b)" by (rule Cons.IH)
  finally show ?case by simp
qed

lemma fold_max_ge_elem: "x \<in> set xs \<Longrightarrow> (x::nat) \<le> fold max xs b"
proof (induction xs arbitrary: b)
  case Nil
  then show ?case by simp
next
  case (Cons y ys)
  show ?case
  proof (cases "x = y")
    case True
    have "x \<le> max x b" by simp
    also have "\<dots> \<le> fold max ys (max x b)" by (rule fold_max_ge_init)
    finally show ?thesis using True by simp
  next
    case False
    with Cons.prems have "x \<in> set ys" by simp
    from Cons.IH [OF this, of "max y b"] show ?thesis by simp
  qed
qed

lemma deepcopy_repr:
  "repr h v t \<Longrightarrow> height t \<le> fuel \<Longrightarrow>
     \<exists>v' h'. deepcopy fuel h v = Some (v', h') \<and> repr h' v' t"
  "list_all2 (\<lambda>t v. repr h v t) ts vs \<Longrightarrow> \<forall>t \<in> set ts. height t \<le> fuel \<Longrightarrow>
     \<exists>vs' h'. deepcopy_all fuel h vs = Some (vs', h') \<and> list_all2 (\<lambda>t v. repr h' v t) ts vs'"
proof (induction fuel h v and fuel h vs arbitrary: t and ts rule: deepcopy_deepcopy_all.induct)
  case (1 fuel h a)
  show ?case
  proof (cases t)
    case (TList ts)
    with "1.prems" obtain vs n where a: "a < length h" "h ! a = PList vs"
      and all: "list_all2 (\<lambda>t v. repr h v t) ts vs"
      and fuel: "fuel = Suc n" "fold max (map height ts) 0 \<le> n"
      by (cases fuel) (auto split: pyobj.splits)
    from fuel(2) have "\<forall>t \<in> set ts. height t \<le> n"
      using fold_max_ge_elem [of _ "map height ts" 0] by fastforce
    from "1.IH"(1) [OF fuel(1) a all this] obtain vs' h1 where
      c: "deepcopy_all n h vs = Some (vs', h1)" "list_all2 (\<lambda>t v. repr h1 v t) ts vs'"
      by blast
    from c(2) have "list_all2 (\<lambda>t v. repr (h1 @ [PList vs']) v t) ts vs'"
      by (rule list_all2_mono) (rule repr_append)
    with c(1) a fuel(1) TList show ?thesis
      by simp
  next
    case (TDict kts)
    with "1.prems" obtain kvs n where a: "a < length h" "h ! a = PDict kvs"
      and keys: "map fst kvs = map fst kts"
      and all: "list_all2 (\<lambda>t v. repr h v t) (map snd kts) (map snd kvs)"
      and fuel: "fuel = Suc n" "fold max (map (\<lambda>kt. height (snd kt)) kts) 0 \<le> n"
      by (cases fuel) (auto split: pyobj.splits)
    from fuel(2) have "\<forall>t \<in> set (map snd kts). height t \<le> n"
      using fold_max_ge_elem [of _ "map (\<lambda>kt. height (snd kt)) kts" 0] by fastforce
    from "1.IH"(2) [OF fuel(1) a all this] obtain vs' h1 where
      c: "deepcopy_all n h (map snd kvs) = Some (vs', h1)"
        "list_all2 (\<lambda>t v. repr h1 v t) (map snd kts) vs'"
      by blast
    from c(2) keys have len: "length vs' = length (map fst kvs)"
      by (auto dest: list_all2_lengthD)
    let ?ob = "PDict (zip (map fst kvs) vs')"
    from c(2) have "list_all2 (\<lambda>t v. repr (h1 @ [?ob]) v t) (map snd kts) vs'"
      by (rule list_all2_mono) (rule repr_append)
    with c(1) a fuel(1) TDict keys len show ?thesis
      by (simp add: map_fst_zip map_snd_zip)
  qed (use "1.prems" in simp_all)
next
  case (3 fuel h)
  then show ?case by simp
next
  case (4 fuel h v vs)
  from "4.prems"(1) obtain t ts' where ts: "ts = t # ts'" and hd: "repr h v t"
    and tl: "list_all2 (\<lambda>t v. repr h v t) ts' vs"
    by (auto simp: list_all2_Cons2)
  from "4.prems"(2) ts have ht: "height t \<le> fuel" "\<forall>t \<in> set ts'. height t \<le> fuel"
    by simp_all
  from "4.IH"(1) [OF hd ht(1)] obtain v1 h1 where
    c1: "deepcopy fuel h v = Some (v1, h1)" "repr h1 v1 t"
    by blast
  from deepcopy_extends(1) [OF c1(1)] obtain e1 where e1: "h1 = h @ e1"
    by blast
  from tl have "list_all2 (\<lambda>t v. repr h1 v t) ts' vs"
    unfolding e1 by (rule list_all2_mono) (rule repr_append)
  from "4.IH"(2) [OF c1(1) refl this ht(2)] obtain vs1 h2 where
    c2: "deepcopy_all fuel h1 vs = Some (vs1, h2)" "list_all2 (\<lambda>t v. repr h2 v t) ts' vs1"
    by blast
  from deepcopy_extends(2) [OF c2(1)] obtain e2 where e2: "h2 = h1 @ e2"
    by blast
  from c1(2) have "repr h2 v1 t"
    unfolding e2 by (rule repr_append)
  with c1(1) c2 ts show ?case
    by simp
qed auto

lemma refs_withinD: "refs_within lo hi vs \<Longrightarrow> PRef b \<in> set vs \<Longrightarrow> lo \<le> b \<and> b < hi"
  by (force simp: refs_within_def list_all_iff)

lemma refs_withinI:
  assumes "\<And>b. PRef b \<in> set vs \<Longrightarrow> lo \<le> b \<and> b < hi"
  shows "refs_within lo hi vs"
  unfolding refs_within_def list_all_iff
proof
  fix v assume v: "v \<in> set vs"
  show "ref_within lo hi v"
  proof (cases v)
    case (PRef b)
    with v assms [of b] show ?thesis by simp
  qed simp_all
qed

lemma reach_within:
  assumes "client_inv h0 h R"
  shows "a \<in> reach h R \<Longrightarrow> length h0 \<le> a \<and> a < length h"
proof (induction rule: reach.induct)
  case (root a)
  with assms show ?case
    by (auto simp: client_inv_def dest: refs_withinD)
next
  case (child a b)
  from child.IH have a: "length h0 \<le> a" "a < length h"
    by simp_all
  then have "drop (length h0) h ! (a - length h0) = h ! a"
    by simp
  moreover from a have "a - length h0 < length (drop (length h0) h)"
    by simp
  ultimately have "h ! a \<in> set (drop (length h0) h)"
    by (metis nth_mem)
  with assms have "refs_within (length h0) (length h) (values_of (h ! a))"
    by (simp add: client_inv_def objs_within_def list_all_iff)
  then show ?case
    using child.hyps(3) by (rule refs_withinD)
qed

lemma copied_ref: "copied lo hi (PRef g) v \<Longrightarrow> \<exists>a. v = PRef a \<and> lo \<le> a \<and> a < hi"
  by (cases v) auto

lemma get_inv:
  assumes inv: "client_inv h0 h R" and c: "deepcopy fuel h (PRef g) = Some (v, h')"
  shows "client_inv h0 h' (v # R)"
proof -
  from deepcopy_extends(1) [OF c] obtain ext where
    ext: "h' = h @ ext" "copied (length h) (length h') (PRef g) v"
      "objs_within (length h) (length h') ext"
    by blast
  from inv have n0: "length h0 \<le> length h" and tk: "take (length h0) h = h0"
    and R: "refs_within (length h0) (length h) R"
    and os: "objs_within (length h0) (length h) (drop (length h0) h)"
    by (simp_all add: client_inv_def)
  have le: "length h \<le> length h'"
    using ext(1) by simp
  from copied_ref [OF ext(2)] n0 have "ref_within (length h0) (length h') v"
    by auto
  moreover from R have "refs_within (length h0) (length h') R"
    by (rule refs_within_mono) (use le in simp_all)
  moreover from os have "objs_within (length h0) (length h') (drop (length h0) h)"
    by (rule objs_within_mono) (use le in simp_all)
  moreover from ext(3) have "objs_within (length h0) (length h') ext"
    by (rule objs_within_mono) (use n0 in simp_all)
  ultimately show ?thesis
    using n0 tk ext(1) by (simp add: client_inv_def)
qed

lemma objs_within_update:
  assumes "objs_within lo hi os" and "refs_within lo hi (values_of ob)"
  shows "objs_within lo hi (os[i := ob])"
  unfolding objs_within_def list_all_iff
proof
  fix x assume "x \<in> set (os[i := ob])"
  then have "x = ob \<or> x \<in> set os"
    using set_update_subset_insert [of os i ob] by blast
  with assms show "refs_within lo hi (values_of x)"
    by (auto simp: objs_within_def list_all_iff)
qed

lemma client_step_inv:
  assumes "client_step gx gy (h, R) (h', R')" and inv: "client_inv h0 h R"
  shows "client_inv h0 h' R'"
  using assms(1)
proof (cases rule: client_step.cases)
  case (get_presetsx fuel v)
  with inv show ?thesis
    by (auto simp: presetsx_def intro: get_inv)
next
  case (get_presetsy fuel v)
  with inv show ?thesis
    by (auto simp: presetsy_def intro: get_inv)
next
  case (mutate a ob)
  from reach_within [OF inv mutate(3)] have a: "length h0 \<le> a" "a < length h"
    by simp_all
  have ob: "refs_within (length h0) (length h) (values_of ob)"
    by (rule refs_withinI) (use mutate(5) reach_within [OF inv] in blast)
  from inv have os: "objs_within (length h0) (length h) (drop (length h0) h)"
    by (simp add: client_inv_def)
  have "drop (length h0) (h[a := ob]) = (drop (length h0) h)[a - length h0 := ob]"
    using a by (simp add: drop_update_swap)
  with objs_within_update [OF os ob, of "a - length h0"] inv a mutate(1,2) show ?thesis
    by (simp add: client_inv_def)
next
  case (create ob)
  have ob: "refs_within (length h0) (length h) (values_of ob)"
    by (rule refs_withinI) (use create(3) reach_within [OF inv] in blast)
  from inv have n0: "length h0 \<le> length h"
    and R: "refs_within (length h0) (length h) R"
    and os: "objs_within (length h0) (length h) (drop (length h0) h)"
    by (simp_all add: client_inv_def)
  from R have "refs_within (length h0) (Suc (length h)) R"
    by (rule refs_within_mono) simp_all
  moreover from os have "objs_within (length h0) (Suc (length h)) (drop (length h0) h)"
    by (rule objs_within_mono) simp_all
  moreover from ob have "refs_within (length h0) (Suc (length h)) (values_of ob)"
    by (rule refs_within_mono) simp_all
  ultimately show ?thesis
    using inv n0 create(1,2) by (simp add: client_inv_def)
qed

lemma client_steps_inv:
  assumes "(client_step gx gy)\<^sup>*\<^sup>* (h0, []) (h, R)"
  shows "client_inv h0 h R"
proof -
  have "client_inv h0 (fst st) (snd st)" if "(client_step gx gy)\<^sup>*\<^sup>* (h0, []) st" for st
    using that
  proof (induction rule: rtranclp_induct)
    case base
    show ?case by (simp add: client_inv_def)
  next
    case (step st st')
    then show ?case
      using client_step_inv [of gx gy "fst st" "snd st" "fst st'" "snd st'" h0] by simp
  qed
  from this [OF assms] show ?thesis by simp
qed

text \<open>
  C10. Let the stored tables stand for the nested values \<open>tx\<close> and \<open>ty\<close> when the module has
  been imported. Whatever a client then does, reading the two properties and mutating, in
  any way, the mappings it was returned and everything it can reach from them, a further
  read of \<^verbatim>\<open>presetsx\<close> (of \<^verbatim>\<open>presetsy\<close>) returns, given fuel for the depth of the table, a
  mapping that stands for \<open>tx\<close> (for \<open>ty\<close>) again, and that is none of the mappings returned
  before.
\<close>

theorem presets_are_deep_copies:
  assumes "repr h0 (PRef gx) tx" and "repr h0 (PRef gy) ty"
    and "(client_step gx gy)\<^sup>*\<^sup>* (h0, []) (h, R)"
    and "height tx \<le> fuel" and "height ty \<le> fuel"
  shows "(\<exists>v h'. presetsx fuel gx h = Some (v, h') \<and> repr h' v tx \<and> v \<notin> set R) \<and>
         (\<exists>v h'. presetsy fuel gy h = Some (v, h') \<and> repr h' v ty \<and> v \<notin> set R)"
proof -
  from client_steps_inv [OF assms(3)] have inv: "client_inv h0 h R" .
  then have "take (length h0) h = h0"
    by (simp add: client_inv_def)
  with append_take_drop_id [of "length h0" h] have h: "h = h0 @ drop (length h0) h"
    by simp
  have copy: "\<exists>v h'. deepcopy fuel h (PRef g) = Some (v, h') \<and> repr h' v t \<and> v \<notin> set R"
    if "repr h0 (PRef g) t" "height t \<le> fuel" for g t
  proof -
    from that(1) have "repr h (PRef g) t"
      by (subst h) (rule repr_append)
    from deepcopy_repr(1) [OF this that(2)] obtain v h' where
      c: "deepcopy fuel h (PRef g) = Some (v, h')" "repr h' v t"
      by blast
    from deepcopy_extends(1) [OF c(1)] have "copied (length h) (length h') (PRef g) v"
      by blast
    from copied_ref [OF this] obtain a where a: "v = PRef a" "length h \<le> a"
      by blast
    from inv have "refs_within (length h0) (length h) R"
      by (simp add: client_inv_def)
    with a have "v \<notin> set R"
      by (auto dest: refs_withinD)
    with c show ?thesis by blast
  qed
  from copy [OF assms(1,4)] copy [OF assms(2,5)] show ?thesis
    by (simp add: presetsx_def presetsy_def)
qed

theorem presets_are_deep_copies_witness:
  "repr imported_heap (PRef 2)
     (TDict [(''regnetx002'', TDict [(''depths'', TList [TInt 1, TInt 1])])]) \<and>
   repr imported_heap (PRef 4) (TDict [(''regnety002'', TList [])]) \<and>
   (client_step 2 4)\<^sup>*\<^sup>* (imported_heap, []) (mutated_heap, [PRef 7]) \<and>
   (\<exists>v h'. presetsx 3 2 mutated_heap = Some (v, h') \<and>
      repr h' v (TDict [(''regnetx002'', TDict [(''depths'', TList [TInt 1, TInt 1])])]) \<and>
      v \<notin> set [PRef 7]) \<and>
   (\<exists>v h'. presetsy 3 4 mutated_heap = Some (v, h') \<and>
      repr h' v (TDict [(''regnety002'', TList [])]) \<and> v \<notin> set [PRef 7])"
proof -
  let ?tx = "TDict [(''regnetx002'', TDict [(''depths'', TList [TInt 1, TInt 1])])]"
  let ?ty = "TDict [(''regnety002'', TList [])]"
  let ?h1 = "imported_heap @
     [PList [PInt 1, PInt 1], PDict [(''depths'', PRef 5)], PDict [(''regnetx002'', PRef 6)]]"
  have rx: "repr imported_heap (PRef 2) ?tx" and ry: "repr imported_heap (PRef 4) ?ty"
    by (simp_all add: imported_heap_def)
  have hx: "height ?tx \<le> 3" and hy: "height ?ty \<le> 3"
    by simp_all
  have "presetsx 3 2 imported_heap = Some (PRef 7, ?h1)"
    by (simp add: presetsx_def imported_heap_def numeral_3_eq_3)
  then have s1: "client_step 2 4 (imported_heap, []) (?h1, [PRef 7])"
    by (rule client_step.get_presetsx)
  have r7: "7 \<in> reach ?h1 [PRef 7]"
    by (rule reach.root) simp
  have r6: "6 \<in> reach ?h1 [PRef 7]"
    by (rule reach.child [OF r7]) (simp_all add: imported_heap_def)
  have r5: "5 \<in> reach ?h1 [PRef 7]"
    by (rule reach.child [OF r6]) (simp_all add: imported_heap_def)
  have "client_step 2 4 (?h1, [PRef 7]) (?h1[5 := PList [PInt 99, PInt 1]], [PRef 7])"
    by (rule client_step.mutate [OF r5]) (simp_all add: imported_heap_def)
  moreover have "?h1[5 := PList [PInt 99, PInt 1]] = mutated_heap"
    by (simp add: mutated_heap_def imported_heap_def)
  ultimately have s2: "client_step 2 4 (?h1, [PRef 7]) (mutated_heap, [PRef 7])"
    by simp
  from s1 s2 have steps: "(client_step 2 4)\<^sup>*\<^sup>* (imported_heap, []) (mutated_heap, [PRef 7])"
    by (meson rtranclp.rtrancl_into_rtrancl rtranclp.rtrancl_refl)
  from presets_are_deep_copies [OF rx ry steps hx hy] rx ry steps show ?thesis
    by blast
qed

end
